theory Spec2Isabelle
  imports Main "HOL-Library.AList" "HOL-Library.Monad_Syntax"
begin

unbundle bit_operations_syntax

section \<open>Strings and character codes\<close>

text \<open>
  JavaScript strings are modelled as HOL strings and JavaScript numbers that hold positions,
  counters and character codes as \<open>int\<close> or \<open>nat\<close>.  The constants of \<open>chars.ts\<close> are the
  ASCII codes of the characters they name.
\<close>

abbreviation (input) SEMICOLON :: int where "SEMICOLON \<equiv> 59"
abbreviation (input) COLON :: int where "COLON \<equiv> 58"
abbreviation (input) COMMA :: int where "COMMA \<equiv> 44"
abbreviation (input) PERIOD :: int where "PERIOD \<equiv> 46"
abbreviation (input) SLASH :: int where "SLASH \<equiv> 47"
abbreviation (input) LPAREN :: int where "LPAREN \<equiv> 40"
abbreviation (input) RPAREN :: int where "RPAREN \<equiv> 41"
abbreviation (input) LBRACKET :: int where "LBRACKET \<equiv> 91"
abbreviation (input) RBRACKET :: int where "RBRACKET \<equiv> 93"
abbreviation (input) LBRACE :: int where "LBRACE \<equiv> 123"
abbreviation (input) RBRACE :: int where "RBRACE \<equiv> 125"

definition isQuote :: "int \<Rightarrow> bool" where
  "isQuote code \<longleftrightarrow> code = 39 \<or> code = 34 \<or> code = 96"

definition charCode :: "char \<Rightarrow> int" where
  "charCode c = int (of_char c)"

definition fromCharCode :: "int \<Rightarrow> string" where
  "fromCharCode code = [char_of (nat code)]"

text \<open>\<open>s.startsWith(x, pos)\<close>, \<open>s.indexOf(x, pos)\<close> and \<open>s.substring(a, b)\<close>.\<close>

definition startsWith :: "string \<Rightarrow> string \<Rightarrow> nat \<Rightarrow> bool" where
  "startsWith s x pos \<longleftrightarrow> take (length x) (drop pos s) = x"

fun indexOf_scan :: "string \<Rightarrow> string \<Rightarrow> nat \<Rightarrow> int" where
  "indexOf_scan x [] i = (if x = [] then int i else - 1)"
| "indexOf_scan x (c # cs) i =
     (if take (length x) (c # cs) = x then int i else indexOf_scan x cs (Suc i))"

definition indexOf :: "string \<Rightarrow> string \<Rightarrow> nat \<Rightarrow> int" where
  "indexOf s x pos = (let p = min pos (length s) in indexOf_scan x (drop p s) p)"

definition substring :: "string \<Rightarrow> nat \<Rightarrow> nat \<Rightarrow> string" where
  "substring s a b =
     (let a' = min a (length s);
          b' = min b (length s);
          lo = min a' b';
          hi = max a' b'
      in take (hi - lo) (drop lo s))"

text \<open>
  Decimal rendering of a number inside a template literal.  Numbers are integers here and are
  printed with all their digits; \<open>Number.prototype.toString\<close> prints a fraction or an exponent
  for the numbers that have one, which only changes the text of an error message.
\<close>

fun digits :: "nat \<Rightarrow> string" where
  "digits n =
     (if n < 10 then [char_of (48 + n)] else digits (n div 10) @ [char_of (48 + n mod 10)])"

declare digits.simps [simp del]

definition numToString :: "int \<Rightarrow> string" where
  "numToString i = (if i < 0 then CHR ''-'' # digits (nat (- i)) else digits (nat i))"


section \<open>Lexer tokens\<close>

text \<open>
  The lexer is a collaborator of the parser kept in \<open>lexer.ts\<close>.  A token carries the offsets
  \<open>index\<close> and \<open>end\<close> of its text, its type, a numeric value (the character code of a
  \<open>Character\<close> token, the value of a \<open>Number\<close> token, which the parser only copies) and a string
  value.  Offsets into a text are natural numbers.  \<open>EOF\<close> is the token \<open>peek\<close> answers with beyond
  the last token: a \<open>Character\<close> token of code 0 with the empty string.  Its offsets, \<open>-1\<close> in
  \<open>lexer.ts\<close>, are read nowhere but in the test \<open>this.next.index !== -1\<close> of \<open>parsePipe\<close>, which
  holds exactly when the next token is not \<open>EOF\<close>; the comparison \<open>tok === EOF\<close> likewise holds
  exactly beyond the last token.
\<close>

datatype TokenType =
  TCharacter | TIdentifier | TPrivateIdentifier | TKeyword | TString | TOperator | TNumber
  | TError

record Token =
  tok_index :: nat
  tok_end :: nat
  tok_type :: TokenType
  numValue :: int
  strValue :: string

definition EOF :: Token where
  "EOF = \<lparr>tok_index = 0, tok_end = 0, tok_type = TCharacter, numValue = 0, strValue = []\<rparr>"

definition isCharacter :: "Token \<Rightarrow> int \<Rightarrow> bool" where
  "isCharacter t code \<longleftrightarrow> tok_type t = TCharacter \<and> numValue t = code"

definition isOperator :: "Token \<Rightarrow> string \<Rightarrow> bool" where
  "isOperator t op \<longleftrightarrow> tok_type t = TOperator \<and> strValue t = op"

definition isNumber :: "Token \<Rightarrow> bool" where
  "isNumber t \<longleftrightarrow> tok_type t = TNumber"

definition isString :: "Token \<Rightarrow> bool" where
  "isString t \<longleftrightarrow> tok_type t = TString"

definition isIdentifier :: "Token \<Rightarrow> bool" where
  "isIdentifier t \<longleftrightarrow> tok_type t = TIdentifier"

definition isPrivateIdentifier :: "Token \<Rightarrow> bool" where
  "isPrivateIdentifier t \<longleftrightarrow> tok_type t = TPrivateIdentifier"

definition isKeyword :: "Token \<Rightarrow> bool" where
  "isKeyword t \<longleftrightarrow> tok_type t = TKeyword"

definition isKeywordNamed :: "Token \<Rightarrow> string \<Rightarrow> bool" where
  "isKeywordNamed t kw \<longleftrightarrow> tok_type t = TKeyword \<and> strValue t = kw"

definition isError :: "Token \<Rightarrow> bool" where
  "isError t \<longleftrightarrow> tok_type t = TError"

definition toNumber :: "Token \<Rightarrow> int" where
  "toNumber t = (if tok_type t = TNumber then numValue t else - 1)"

definition tokToString :: "Token \<Rightarrow> string" where
  "tokToString t = (if tok_type t = TNumber then numToString (numValue t) else strValue t)"

section \<open>Spans and parse errors\<close>

record ParseSpan =
  span_start :: nat
  span_end :: nat

record AbsoluteSourceSpan =
  abs_start :: nat
  abs_end :: nat

definition toAbsolute :: "ParseSpan \<Rightarrow> nat \<Rightarrow> AbsoluteSourceSpan" where
  "toAbsolute sp absoluteOffset =
     \<lparr>abs_start = absoluteOffset + span_start sp, abs_end = absoluteOffset + span_end sp\<rparr>"

record ParserError =
  message :: string
  err_input :: string
  errLocation :: string
  ctxLocation :: "string option"

section \<open>The state of one \<open>_ParseAST\<close>\<close>

text \<open>
  The fields of the class, in the order of its declaration.  \<open>sourceSpanCache\<close> is keyed by
  the serial \<open>start@inputIndex:artificialEndIndex\<close>, here the triple of the three numbers.
\<close>

record ParseAST =
  rparensExpected :: int
  rbracketsExpected :: int
  rbracesExpected :: int
  contextFlags :: nat
  sourceSpanCache :: "(nat \<times> nat \<times> nat option) \<rightharpoonup> AbsoluteSourceSpan"
  index :: nat
  input :: string
  location :: string
  absoluteOffset :: nat
  tokens :: "Token list"
  parseFlags :: nat
  errors :: "ParserError list"
  offset :: nat

abbreviation (input) Flags_None :: nat where "Flags_None \<equiv> 0"
abbreviation (input) Flags_Action :: nat where "Flags_Action \<equiv> 1"
abbreviation (input) Flags_AssignmentEvent :: nat where "Flags_AssignmentEvent \<equiv> 2"
abbreviation (input) Ctx_Writable :: nat where "Ctx_Writable \<equiv> 1"

definition new_ParseAST ::
  "string \<Rightarrow> string \<Rightarrow> nat \<Rightarrow> Token list \<Rightarrow> nat \<Rightarrow> ParserError list \<Rightarrow> nat \<Rightarrow> ParseAST" where
  "new_ParseAST inp loc absOff toks flags errs off =
     \<lparr>rparensExpected = 0, rbracketsExpected = 0, rbracesExpected = 0, contextFlags = 0,
      sourceSpanCache = Map.empty, index = 0, input = inp, location = loc,
      absoluteOffset = absOff, tokens = toks, parseFlags = flags, errors = errs,
      offset = off\<rparr>"

text \<open>
  \<open>peek\<close> is called with the offsets \<open>-1\<close> (only when \<open>index > 0\<close>), \<open>0\<close> and \<open>1\<close>.
\<close>

definition peek :: "ParseAST \<Rightarrow> int \<Rightarrow> Token" where
  "peek st off =
     (let i = int (index st) + off
      in if i < int (length (tokens st)) then tokens st ! nat i else EOF)"

definition next_tok :: "ParseAST \<Rightarrow> Token" where
  "next_tok st = peek st 0"

definition atEOF :: "ParseAST \<Rightarrow> bool" where
  "atEOF st \<longleftrightarrow> index st \<ge> length (tokens st)"

definition currentEndIndex :: "ParseAST \<Rightarrow> nat" where
  "currentEndIndex st =
     (if index st > 0 then tok_end (peek st (- 1)) + offset st
      else if length (tokens st) = 0 then length (input st) + offset st
      else tok_index (next_tok st) + offset st)"

definition inputIndex :: "ParseAST \<Rightarrow> nat" where
  "inputIndex st = (if atEOF st then currentEndIndex st else tok_index (next_tok st) + offset st)"

definition currentAbsoluteOffset :: "ParseAST \<Rightarrow> nat" where
  "currentAbsoluteOffset st = absoluteOffset st + inputIndex st"

text \<open>\<open>span(start, artificialEndIndex?)\<close>: the optional argument is a \<open>nat option\<close>.\<close>

definition span :: "ParseAST \<Rightarrow> nat \<Rightarrow> nat option \<Rightarrow> ParseSpan" where
  "span st start artificialEndIndex =
     (let endIndex =
            (case artificialEndIndex of
               Some a \<Rightarrow> if a > currentEndIndex st then a else currentEndIndex st
             | None \<Rightarrow> currentEndIndex st)
      in if start > endIndex then \<lparr>span_start = endIndex, span_end = start\<rparr>
         else \<lparr>span_start = start, span_end = endIndex\<rparr>)"

section \<open>Expression trees\<close>

text \<open>
  The node classes of \<open>ast.ts\<close>, one constructor per class, with the constructor arguments
  the parser passes: the relative span, the absolute source span, then the fields of the
  variant.  \<open>Unary.createPlus\<close> and \<open>Unary.createMinus\<close> give \<open>Unary\<close> nodes with the
  operator \<open>+\<close> or \<open>-\<close>.  An \<open>ASTWithSource\<close> also holds a reference to the error array of
  the \<open>Parser\<close> that made it; the array is shared, not copied, so it is not part of the value
  and is read from the parser (see \<open>Parser\<close> below).
\<close>

datatype LiteralValue = LNull | LUndefined | LBool bool | LNumber int | LString string

datatype LiteralMapKey = LiteralMapKey (lmk_key: string) (lmk_quoted: bool)

datatype AST =
    EmptyExpr ParseSpan AbsoluteSourceSpan
  | ImplicitReceiver ParseSpan AbsoluteSourceSpan
  | ThisReceiver ParseSpan AbsoluteSourceSpan
  | Chain ParseSpan AbsoluteSourceSpan "AST list"
  | Conditional ParseSpan AbsoluteSourceSpan AST AST AST
  | PropertyRead ParseSpan AbsoluteSourceSpan AbsoluteSourceSpan AST string
  | PropertyWrite ParseSpan AbsoluteSourceSpan AbsoluteSourceSpan AST string AST
  | SafePropertyRead ParseSpan AbsoluteSourceSpan AbsoluteSourceSpan AST string
  | KeyedRead ParseSpan AbsoluteSourceSpan AST AST
  | SafeKeyedRead ParseSpan AbsoluteSourceSpan AST AST
  | KeyedWrite ParseSpan AbsoluteSourceSpan AST AST AST
  | BindingPipe ParseSpan AbsoluteSourceSpan AST string "AST list" AbsoluteSourceSpan
  | LiteralPrimitive ParseSpan AbsoluteSourceSpan LiteralValue
  | LiteralArray ParseSpan AbsoluteSourceSpan "AST list"
  | LiteralMap ParseSpan AbsoluteSourceSpan "LiteralMapKey list" "AST list"
  | Interpolation ParseSpan AbsoluteSourceSpan "string list" "AST list"
  | Binary ParseSpan AbsoluteSourceSpan string AST AST
  | Unary ParseSpan AbsoluteSourceSpan string AST
  | PrefixNot ParseSpan AbsoluteSourceSpan AST
  | NonNullAssert ParseSpan AbsoluteSourceSpan AST
  | Call ParseSpan AbsoluteSourceSpan AST "AST list" AbsoluteSourceSpan
  | SafeCall ParseSpan AbsoluteSourceSpan AST "AST list" AbsoluteSourceSpan
  | ASTWithSource AST "string option" string nat

text \<open>The relative span every node carries (\<open>ast.span\<close>).\<close>

fun ast_span :: "AST \<Rightarrow> ParseSpan" where
  "ast_span (EmptyExpr sp _) = sp"
| "ast_span (ImplicitReceiver sp _) = sp"
| "ast_span (ThisReceiver sp _) = sp"
| "ast_span (Chain sp _ _) = sp"
| "ast_span (Conditional sp _ _ _ _) = sp"
| "ast_span (PropertyRead sp _ _ _ _) = sp"
| "ast_span (PropertyWrite sp _ _ _ _ _) = sp"
| "ast_span (SafePropertyRead sp _ _ _ _) = sp"
| "ast_span (KeyedRead sp _ _ _) = sp"
| "ast_span (SafeKeyedRead sp _ _ _) = sp"
| "ast_span (KeyedWrite sp _ _ _ _) = sp"
| "ast_span (BindingPipe sp _ _ _ _ _) = sp"
| "ast_span (LiteralPrimitive sp _ _) = sp"
| "ast_span (LiteralArray sp _ _) = sp"
| "ast_span (LiteralMap sp _ _ _) = sp"
| "ast_span (Interpolation sp _ _ _) = sp"
| "ast_span (Binary sp _ _ _ _) = sp"
| "ast_span (Unary sp _ _ _) = sp"
| "ast_span (PrefixNot sp _ _) = sp"
| "ast_span (NonNullAssert sp _ _) = sp"
| "ast_span (Call sp _ _ _ _) = sp"
| "ast_span (SafeCall sp _ _ _ _) = sp"
| "ast_span (ASTWithSource _ src _ _) =
     \<lparr>span_start = 0, span_end = (case src of None \<Rightarrow> 0 | Some s \<Rightarrow> length s)\<rparr>"

fun isEmptyExpr :: "AST \<Rightarrow> bool" where
  "isEmptyExpr (EmptyExpr _ _) = True"
| "isEmptyExpr _ = False"

text \<open>
  \<open>x instanceof ImplicitReceiver\<close>: \<open>ThisReceiver\<close> is a subclass of \<open>ImplicitReceiver\<close>.
\<close>

fun isImplicitReceiver :: "AST \<Rightarrow> bool" where
  "isImplicitReceiver (ImplicitReceiver _ _) = True"
| "isImplicitReceiver (ThisReceiver _ _) = True"
| "isImplicitReceiver _ = False"

section \<open>Template nodes\<close>

text \<open>
  The node classes of \<open>r3_ast.ts\<close> with the fields the binder reads.  The binder keeps its
  results in maps and sets keyed by object identity.  Here a key is the value of the node:
  every node that serves as a key carries an identity tag (its first field), and two
  distinct objects are given distinct tags, so that equal values are the same object.  An
  expression node is identified by its value, which includes its absolute source span.  A
  JavaScript \<open>Map\<close> is an association list in insertion order, \<open>AList.update\<close> is \<open>Map.set\<close>
  and \<open>map_of\<close> is \<open>Map.get\<close>.
\<close>

datatype TextAttribute = TextAttribute (ta_id: nat) (ta_name: string) (ta_value: string)
datatype BoundAttribute = BoundAttribute (ba_id: nat) (ba_name: string) (ba_value: AST)
datatype BoundEvent = BoundEvent (be_id: nat) (be_name: string) (be_handler: AST)
datatype Reference = Reference (ref_id: nat) (ref_name: string) (ref_value: string)
datatype Variable = Variable (var_id: nat) (var_name: string) (var_value: string)

datatype TemplateAttr = TemplateBound BoundAttribute | TemplateText TextAttribute

datatype IcuPlaceholder = PlaceholderText string | PlaceholderBoundText AST

datatype Node =
    Element nat string "TextAttribute list" "BoundAttribute list" "BoundEvent list"
      "Node list" "Reference list"
  | Template nat string "TextAttribute list" "BoundAttribute list" "BoundEvent list"
      "TemplateAttr list" "Node list" "Reference list" "Variable list"
  | Content string "TextAttribute list"
  | Text string
  | BoundText AST
  | Icu "(string \<times> AST) list" "(string \<times> IcuPlaceholder) list"

datatype Entity = Ref Reference | Var Variable

fun entity_name :: "Entity \<Rightarrow> string" where
  "entity_name (Ref r) = ref_name r"
| "entity_name (Var v) = var_name v"

datatype Scope =
  Scope (scope_template: "Node option") (namedEntities: "(string \<times> Entity) list")
    (childScopes: "(Node \<times> Scope) list")

definition maybeDeclare :: "Entity \<Rightarrow> Scope \<Rightarrow> Scope" where
  "maybeDeclare thing s =
     (if map_of (namedEntities s) (entity_name thing) = None
      then Scope (scope_template s)
             (AList.update (entity_name thing) thing (namedEntities s)) (childScopes s)
      else s)"

definition visitVariable :: "Variable \<Rightarrow> Scope \<Rightarrow> Scope" where
  "visitVariable variable s = maybeDeclare (Var variable) s"

definition visitReference :: "Reference \<Rightarrow> Scope \<Rightarrow> Scope" where
  "visitReference reference s = maybeDeclare (Ref reference) s"

definition childScopes_set :: "Node \<Rightarrow> Scope \<Rightarrow> Scope \<Rightarrow> Scope" where
  "childScopes_set t child s =
     Scope (scope_template s) (namedEntities s) (AList.update t child (childScopes s))"

fun Scope_ingest_Template :: "Node \<Rightarrow> Scope \<Rightarrow> Scope"
  and Scope_visitAll :: "Node list \<Rightarrow> Scope \<Rightarrow> Scope"
  and Scope_visit :: "Node \<Rightarrow> Scope \<Rightarrow> Scope" where
  "Scope_ingest_Template (Template i tag attrs ins outs tattrs children refs vars) s =
     Scope_visitAll children (fold visitVariable vars s)"
| "Scope_ingest_Template _ s = s"
| "Scope_visitAll [] s = s"
| "Scope_visitAll (n # ns) s = Scope_visitAll ns (Scope_visit n s)"
| "Scope_visit (Element i name attrs ins outs children refs) s =
     Scope_visitAll children (fold visitReference refs s)"
| "Scope_visit (Template i tag attrs ins outs tattrs children refs vars) s =
     (let s1 = fold visitReference refs s;
          t = Template i tag attrs ins outs tattrs children refs vars;
          scope = Scope_ingest_Template t (Scope (Some t) [] [])
      in childScopes_set t scope s1)"
| "Scope_visit _ s = s"

definition Scope_apply :: "Node list \<Rightarrow> Scope" where
  "Scope_apply template = Scope_visitAll template (Scope None [] [])"

text \<open>
  A scope object together with its \<open>parentScope\<close>.  The scope tree is complete before any
  lookup is made, so a scope is read through the chain of the scopes that enclose it.
\<close>

datatype ScopeRef = ScopeRef (sr_scope: Scope) (parentScope: "ScopeRef option")

fun lookup :: "ScopeRef \<Rightarrow> string \<Rightarrow> Entity option" where
  "lookup (ScopeRef s parent) name =
     (case map_of (namedEntities s) name of
        Some e \<Rightarrow> Some e
      | None \<Rightarrow> (case parent of Some p \<Rightarrow> lookup p name | None \<Rightarrow> None))"

datatype error = NoTemplate | ChildScopeNotFound Node

definition getChildScope :: "ScopeRef \<Rightarrow> Node \<Rightarrow> error + ScopeRef" where
  "getChildScope sr t =
     (case map_of (childScopes (sr_scope sr)) t of
        None \<Rightarrow> Inl (ChildScopeNotFound t)
      | Some res \<Rightarrow> Inr (ScopeRef res (Some sr)))"

section \<open>Directive matching\<close>

record DirectiveMeta =
  dir_name :: string
  isComponent :: bool
  exportAs :: "string list option"
  dir_inputs :: "string list"
  dir_outputs :: "string list"

datatype BindingKey = KeyBound BoundAttribute | KeyEvent BoundEvent | KeyText TextAttribute
datatype BindingConsumer = ConsumerDirective DirectiveMeta | ConsumerNode Node
datatype ReferenceTarget = TargetDirective DirectiveMeta Node | TargetNode Node

record DB_maps =
  db_directives :: "(Node \<times> DirectiveMeta list) list"
  db_bindings :: "(BindingKey \<times> BindingConsumer) list"
  db_references :: "(Reference \<times> ReferenceTarget) list"

text \<open>
  \<open>trim\<close> strips the ASCII white space (codes 9 to 13 and 32); \<open>String.prototype.trim\<close> also
  strips the white space outside ASCII, such as U+00A0.
\<close>

definition isWhitespace :: "char \<Rightarrow> bool" where
  "isWhitespace c \<longleftrightarrow> of_char c \<in> {9, 10, 11, 12, 13, 32 :: nat}"

definition trim :: "string \<Rightarrow> string" where
  "trim s = rev (dropWhile isWhitespace (rev (dropWhile isWhitespace s)))"

definition DB_resolveReference ::
  "DirectiveMeta list \<Rightarrow> Node \<Rightarrow> Reference \<Rightarrow> DB_maps \<Rightarrow> DB_maps" where
  "DB_resolveReference directives node ref m =
     (if trim (ref_value ref) = []
      then (case find isComponent directives of
              Some d \<Rightarrow>
                m\<lparr>db_references := AList.update ref (TargetDirective d node) (db_references m)\<rparr>
            | None \<Rightarrow> m\<lparr>db_references := AList.update ref (TargetNode node) (db_references m)\<rparr>)
      else (case find (\<lambda>dir. case exportAs dir of None \<Rightarrow> False
                               | Some names \<Rightarrow> ref_value ref \<in> set names) directives of
              None \<Rightarrow> m
            | Some d \<Rightarrow>
                m\<lparr>db_references := AList.update ref (TargetDirective d node) (db_references m)\<rparr>))"

definition setAttributeBinding ::
  "DirectiveMeta list \<Rightarrow> Node \<Rightarrow> (DirectiveMeta \<Rightarrow> string list) \<Rightarrow> BindingKey \<Rightarrow> string
     \<Rightarrow> DB_maps \<Rightarrow> DB_maps" where
  "setAttributeBinding directives node ioType attribute name m =
     (let binding = (case find (\<lambda>dir. name \<in> set (ioType dir)) directives of
                       Some dir \<Rightarrow> ConsumerDirective dir
                     | None \<Rightarrow> ConsumerNode node)
      in m\<lparr>db_bindings := AList.update attribute binding (db_bindings m)\<rparr>)"

definition setTemplateAttrBinding ::
  "DirectiveMeta list \<Rightarrow> Node \<Rightarrow> TemplateAttr \<Rightarrow> DB_maps \<Rightarrow> DB_maps" where
  "setTemplateAttrBinding directives node attr m =
     (case attr of
        TemplateBound b \<Rightarrow> setAttributeBinding directives node dir_inputs (KeyBound b) (ba_name b) m
      | TemplateText t \<Rightarrow> setAttributeBinding directives node dir_inputs (KeyText t) (ta_name t) m)"

text \<open>
  The part of \<open>visitElementOrTemplate\<close> before the recursion into the children.  \<open>matcher\<close>
  stands for the selector built by \<open>createCssSelector\<close> from the element name and the node's
  attributes and the directives the \<open>SelectorMatcher\<close> reports for it.
\<close>

definition DB_bindNode ::
  "(string \<Rightarrow> Node \<Rightarrow> DirectiveMeta list) \<Rightarrow> string \<Rightarrow> Node \<Rightarrow> Reference list
     \<Rightarrow> BoundAttribute list \<Rightarrow> TextAttribute list \<Rightarrow> TemplateAttr list \<Rightarrow> BoundEvent list
     \<Rightarrow> DB_maps \<Rightarrow> DB_maps" where
  "DB_bindNode matcher elementName node refs ins attrs tattrs outs m =
     (let directives = matcher elementName node;
          m1 = (if length directives > 0
                then m\<lparr>db_directives := AList.update node directives (db_directives m)\<rparr>
                else m);
          m2 = fold (DB_resolveReference directives node) refs m1;
          m3 = fold (\<lambda>i. setAttributeBinding directives node dir_inputs (KeyBound i) (ba_name i))
                 ins m2;
          m4 = fold (\<lambda>a. setAttributeBinding directives node dir_inputs (KeyText a) (ta_name a))
                 attrs m3;
          m5 = fold (setTemplateAttrBinding directives node) tattrs m4
      in fold (\<lambda>out. setAttributeBinding directives node dir_outputs (KeyEvent out) (be_name out))
           outs m5)"

fun DB_visitAll :: "(string \<Rightarrow> Node \<Rightarrow> DirectiveMeta list) \<Rightarrow> Node list \<Rightarrow> DB_maps \<Rightarrow> DB_maps"
  and DB_visit :: "(string \<Rightarrow> Node \<Rightarrow> DirectiveMeta list) \<Rightarrow> Node \<Rightarrow> DB_maps \<Rightarrow> DB_maps" where
  "DB_visitAll matcher [] m = m"
| "DB_visitAll matcher (n # ns) m = DB_visitAll matcher ns (DB_visit matcher n m)"
| "DB_visit matcher (Element i name attrs ins outs children refs) m =
     DB_visitAll matcher children
       (DB_bindNode matcher name (Element i name attrs ins outs children refs) refs ins attrs []
          outs m)"
| "DB_visit matcher (Template i tag attrs ins outs tattrs children refs vars) m =
     DB_visitAll matcher children
       (DB_bindNode matcher ''ng-template''
          (Template i tag attrs ins outs tattrs children refs vars) refs ins attrs tattrs outs m)"
| "DB_visit matcher _ m = m"

definition DirectiveBinder_apply ::
  "Node list \<Rightarrow> (string \<Rightarrow> Node \<Rightarrow> DirectiveMeta list) \<Rightarrow> DB_maps" where
  "DirectiveBinder_apply template selectorMatcher =
     DB_visitAll selectorMatcher template
       \<lparr>db_directives = [], db_bindings = [], db_references = []\<rparr>"

section \<open>Binding expressions to entities\<close>

record TB_maps =
  tb_bindings :: "(AST \<times> Entity) list"
  tb_symbols :: "(Entity \<times> Node) list"
  tb_usedPipes :: "string list"
  tb_nestingLevel :: "(Node \<times> nat) list"

definition Set_add :: "'a \<Rightarrow> 'a list \<Rightarrow> 'a list" where
  "Set_add x xs = (if x \<in> set xs then xs else xs @ [x])"

definition maybeMap :: "ScopeRef \<Rightarrow> AST \<Rightarrow> AST \<Rightarrow> string \<Rightarrow> TB_maps \<Rightarrow> TB_maps" where
  "maybeMap sr ast receiver name m =
     (if \<not> isImplicitReceiver receiver then m
      else (case lookup sr name of
              Some target \<Rightarrow> m\<lparr>tb_bindings := AList.update ast target (tb_bindings m)\<rparr>
            | None \<Rightarrow> m))"

text \<open>
  Modelled from the spec: the traversal of \<open>RecursiveAstVisitor\<close> (\<open>ast.ts\<close>), which visits
  the children of every node in the order of their fields.  \<open>TemplateBinder\<close> overrides
  \<open>visitPipe\<close>, \<open>visitPropertyRead\<close>, \<open>visitSafePropertyRead\<close> and \<open>visitPropertyWrite\<close> and
  calls the inherited method afterwards.
\<close>

fun TB_visitAST :: "ScopeRef \<Rightarrow> AST \<Rightarrow> TB_maps \<Rightarrow> TB_maps"
  and TB_visitAllAST :: "ScopeRef \<Rightarrow> AST list \<Rightarrow> TB_maps \<Rightarrow> TB_maps" where
  "TB_visitAST sr (EmptyExpr sp ss) m = m"
| "TB_visitAST sr (ImplicitReceiver sp ss) m = m"
| "TB_visitAST sr (ThisReceiver sp ss) m = m"
| "TB_visitAST sr (Chain sp ss exprs) m = TB_visitAllAST sr exprs m"
| "TB_visitAST sr (Conditional sp ss c y n) m =
     TB_visitAST sr n (TB_visitAST sr y (TB_visitAST sr c m))"
| "TB_visitAST sr (PropertyRead sp ss ns receiver name) m =
     TB_visitAST sr receiver (maybeMap sr (PropertyRead sp ss ns receiver name) receiver name m)"
| "TB_visitAST sr (PropertyWrite sp ss ns receiver name v) m =
     TB_visitAST sr v (TB_visitAST sr receiver
       (maybeMap sr (PropertyWrite sp ss ns receiver name v) receiver name m))"
| "TB_visitAST sr (SafePropertyRead sp ss ns receiver name) m =
     TB_visitAST sr receiver
       (maybeMap sr (SafePropertyRead sp ss ns receiver name) receiver name m)"
| "TB_visitAST sr (KeyedRead sp ss receiver k) m = TB_visitAST sr k (TB_visitAST sr receiver m)"
| "TB_visitAST sr (SafeKeyedRead sp ss receiver k) m =
     TB_visitAST sr k (TB_visitAST sr receiver m)"
| "TB_visitAST sr (KeyedWrite sp ss receiver k v) m =
     TB_visitAST sr v (TB_visitAST sr k (TB_visitAST sr receiver m))"
| "TB_visitAST sr (BindingPipe sp ss exp name args ns) m =
     TB_visitAllAST sr args
       (TB_visitAST sr exp (m\<lparr>tb_usedPipes := Set_add name (tb_usedPipes m)\<rparr>))"
| "TB_visitAST sr (LiteralPrimitive sp ss v) m = m"
| "TB_visitAST sr (LiteralArray sp ss exprs) m = TB_visitAllAST sr exprs m"
| "TB_visitAST sr (LiteralMap sp ss keys vals) m = TB_visitAllAST sr vals m"
| "TB_visitAST sr (Interpolation sp ss strs exprs) m = TB_visitAllAST sr exprs m"
| "TB_visitAST sr (Binary sp ss op l r) m = TB_visitAST sr r (TB_visitAST sr l m)"
| "TB_visitAST sr (Unary sp ss op e) m = TB_visitAST sr e m"
| "TB_visitAST sr (PrefixNot sp ss e) m = TB_visitAST sr e m"
| "TB_visitAST sr (NonNullAssert sp ss e) m = TB_visitAST sr e m"
| "TB_visitAST sr (Call sp ss receiver args asp) m =
     TB_visitAllAST sr args (TB_visitAST sr receiver m)"
| "TB_visitAST sr (SafeCall sp ss receiver args asp) m =
     TB_visitAllAST sr args (TB_visitAST sr receiver m)"
| "TB_visitAST sr (ASTWithSource ast src loc off) m = TB_visitAST sr ast m"
| "TB_visitAllAST sr [] m = m"
| "TB_visitAllAST sr (a # as) m = TB_visitAllAST sr as (TB_visitAST sr a m)"

definition TB_visitSymbol :: "Node option \<Rightarrow> Entity \<Rightarrow> TB_maps \<Rightarrow> TB_maps" where
  "TB_visitSymbol tpl e m =
     (case tpl of
        Some t \<Rightarrow> m\<lparr>tb_symbols := AList.update e t (tb_symbols m)\<rparr>
      | None \<Rightarrow> m)"

definition TB_visitTemplateAttr :: "ScopeRef \<Rightarrow> TemplateAttr \<Rightarrow> TB_maps \<Rightarrow> TB_maps" where
  "TB_visitTemplateAttr sr attr m =
     (case attr of TemplateBound b \<Rightarrow> TB_visitAST sr (ba_value b) m | TemplateText t \<Rightarrow> m)"

definition TB_visitPlaceholder :: "ScopeRef \<Rightarrow> IcuPlaceholder \<Rightarrow> TB_maps \<Rightarrow> TB_maps" where
  "TB_visitPlaceholder sr p m =
     (case p of PlaceholderBoundText v \<Rightarrow> TB_visitAST sr v m | PlaceholderText t \<Rightarrow> m)"

text \<open>
  One \<open>TemplateBinder\<close> is the triple of its \<open>scope\<close>, \<open>template\<close> and \<open>level\<close>; the four maps
  are shared by all binders of one run.  An exception of \<open>getChildScope\<close> ends the run.
\<close>

fun TB_ingest_Template :: "ScopeRef \<Rightarrow> Node option \<Rightarrow> nat \<Rightarrow> Node \<Rightarrow> TB_maps \<Rightarrow> error + TB_maps"
  and TB_visitAll :: "ScopeRef \<Rightarrow> Node option \<Rightarrow> nat \<Rightarrow> Node list \<Rightarrow> TB_maps \<Rightarrow> error + TB_maps"
  and TB_visit :: "ScopeRef \<Rightarrow> Node option \<Rightarrow> nat \<Rightarrow> Node \<Rightarrow> TB_maps \<Rightarrow> error + TB_maps" where
  "TB_ingest_Template sr tpl lvl (Template i tag attrs ins outs tattrs children refs vars) m =
     (case TB_visitAll sr tpl lvl children (fold (\<lambda>v. TB_visitSymbol tpl (Var v)) vars m) of
        Inl e \<Rightarrow> Inl e
      | Inr m1 \<Rightarrow>
          Inr (m1\<lparr>tb_nestingLevel :=
                    AList.update (Template i tag attrs ins outs tattrs children refs vars) lvl
                      (tb_nestingLevel m1)\<rparr>))"
| "TB_ingest_Template sr tpl lvl _ m = Inr m"
| "TB_visitAll sr tpl lvl [] m = Inr m"
| "TB_visitAll sr tpl lvl (n # ns) m =
     (case TB_visit sr tpl lvl n m of Inl e \<Rightarrow> Inl e | Inr m1 \<Rightarrow> TB_visitAll sr tpl lvl ns m1)"
| "TB_visit sr tpl lvl (Element i name attrs ins outs children refs) m =
     TB_visitAll sr tpl lvl children
       (fold (\<lambda>ev. TB_visitAST sr (be_handler ev)) outs
          (fold (\<lambda>a. TB_visitAST sr (ba_value a)) ins m))"
| "TB_visit sr tpl lvl (Template i tag attrs ins outs tattrs children refs vars) m =
     (let m1 = fold (\<lambda>a. TB_visitAST sr (ba_value a)) ins m;
          m2 = fold (\<lambda>ev. TB_visitAST sr (be_handler ev)) outs m1;
          m3 = fold (TB_visitTemplateAttr sr) tattrs m2;
          m4 = fold (\<lambda>r. TB_visitSymbol tpl (Ref r)) refs m3;
          t = Template i tag attrs ins outs tattrs children refs vars
      in case getChildScope sr t of
           Inl e \<Rightarrow> Inl e
         | Inr childScope \<Rightarrow> TB_ingest_Template childScope (Some t) (lvl + 1) t m4)"
| "TB_visit sr tpl lvl (Content sel attrs) m = Inr m"
| "TB_visit sr tpl lvl (Text v) m = Inr m"
| "TB_visit sr tpl lvl (BoundText v) m = Inr (TB_visitAST sr v m)"
| "TB_visit sr tpl lvl (Icu vars placeholders) m =
     Inr (fold (\<lambda>(k, p). TB_visitPlaceholder sr p) placeholders
            (fold (\<lambda>(k, v). TB_visitAST sr v) vars m))"

definition TemplateBinder_applyWithScope :: "Node list \<Rightarrow> Scope \<Rightarrow> error + TB_maps" where
  "TemplateBinder_applyWithScope template scope =
     TB_visitAll (ScopeRef scope None) None 0 template
       \<lparr>tb_bindings = [], tb_symbols = [], tb_usedPipes = [], tb_nestingLevel = []\<rparr>"

section \<open>Entities visible in each template\<close>

text \<open>\<open>new Map(entries)\<close>: the entries are set one after the other.\<close>

definition new_Map :: "('k \<times> 'v) list \<Rightarrow> ('k \<times> 'v) list" where
  "new_Map entries = fold (\<lambda>(k, v) m. AList.update k v m) entries []"

fun extractScopeEntities ::
  "ScopeRef \<Rightarrow> (Node option \<times> (string \<times> Entity) list) list
     \<Rightarrow> (string \<times> Entity) list \<times> (Node option \<times> (string \<times> Entity) list) list" where
  "extractScopeEntities (ScopeRef scope parent) entityMap =
     (case map_of entityMap (scope_template scope) of
        Some m \<Rightarrow> (m, entityMap)
      | None \<Rightarrow>
          (case parent of
             Some p \<Rightarrow>
               (case extractScopeEntities p entityMap of
                  (parentEntities, entityMap1) \<Rightarrow>
                    (let templateEntities = new_Map (parentEntities @ namedEntities scope)
                     in (templateEntities,
                         AList.update (scope_template scope) templateEntities entityMap1)))
           | None \<Rightarrow>
               (let templateEntities = new_Map (namedEntities scope)
                in (templateEntities,
                    AList.update (scope_template scope) templateEntities entityMap))))"

definition scopes_size :: "ScopeRef list \<Rightarrow> nat" where
  "scopes_size stack = sum_list (map (\<lambda>sr. size (sr_scope sr)) stack)"

lemma childScopes_size_aux:
  "sum_list (map (\<lambda>p. size (snd p)) cs) \<le> size_list (size_prod (\<lambda>x. 0) size) cs"
  by (induction cs) auto

lemma childScopes_size:
  "scopes_size (map (\<lambda>(t, c). ScopeRef c (Some sr)) (childScopes s)) < size s"
proof (cases s)
  case (Scope t ne cs)
  have "scopes_size (map (\<lambda>(t, c). ScopeRef c (Some sr)) cs) = sum_list (map (\<lambda>p. size (snd p)) cs)"
    by (simp add: scopes_size_def comp_def case_prod_beta)
  with childScopes_size_aux[of cs] Scope show ?thesis by simp
qed

lemma scopes_size_pop:
  assumes "stack \<noteq> []"
  shows "scopes_size (butlast stack @
           map (\<lambda>(t, c). ScopeRef c (Some (last stack))) (childScopes (sr_scope (last stack))))
         < scopes_size stack"
proof -
  have "scopes_size stack = scopes_size (butlast stack) + size (sr_scope (last stack))"
    using assms append_butlast_last_id[of stack]
    by (metis (no_types, lifting) add.right_neutral list.simps(8,9) map_append scopes_size_def
        sum_list.Cons sum_list.Nil sum_list_append)
  moreover have "scopes_size (butlast stack @
           map (\<lambda>(t, c). ScopeRef c (Some (last stack))) (childScopes (sr_scope (last stack))))
      = scopes_size (butlast stack) +
        scopes_size (map (\<lambda>(t, c). ScopeRef c (Some (last stack)))
          (childScopes (sr_scope (last stack))))"
    by (simp add: scopes_size_def)
  ultimately show ?thesis
    using childScopes_size[of "last stack" "sr_scope (last stack)"] by linarith
qed

text \<open>
  The loop over \<open>scopesToProcess\<close>: the scope popped is the last of the array, and its child
  scopes are pushed in the order of \<open>childScopes\<close>.
\<close>

function processScopes ::
  "ScopeRef list \<Rightarrow> (Node option \<times> (string \<times> Entity) list) list
     \<Rightarrow> (Node option \<times> (string \<times> Entity) list) list" where
  "processScopes scopesToProcess entityMap =
     (if length scopesToProcess > 0
      then (let scope = last scopesToProcess;
                rest = butlast scopesToProcess @
                         map (\<lambda>(t, c). ScopeRef c (Some scope)) (childScopes (sr_scope scope))
            in processScopes rest (snd (extractScopeEntities scope entityMap)))
      else entityMap)"
  by pat_completeness auto
termination
  by (relation "measure (\<lambda>(stack, em). scopes_size stack)") (auto simp: scopes_size_pop)

declare processScopes.simps [simp del]

definition extractTemplateEntities :: "Scope \<Rightarrow> (Node option \<times> Entity set) list" where
  "extractTemplateEntities rootScope =
     map (\<lambda>(template, entities). (template, set (map snd entities)))
       (processScopes [ScopeRef rootScope None] [])"

section \<open>The bound target\<close>

record Target =
  target_template :: "Node list option"

record R3BoundTarget =
  bt_target :: Target
  bt_directives :: "(Node \<times> DirectiveMeta list) list"
  bt_bindings :: "(BindingKey \<times> BindingConsumer) list"
  bt_references :: "(Reference \<times> ReferenceTarget) list"
  bt_exprTargets :: "(AST \<times> Entity) list"
  bt_symbols :: "(Entity \<times> Node) list"
  bt_nestingLevel :: "(Node \<times> nat) list"
  bt_templateEntities :: "(Node option \<times> Entity set) list"
  bt_usedPipes :: "string list"


definition getDirectivesOfNode :: "R3BoundTarget \<Rightarrow> Node \<Rightarrow> DirectiveMeta list option" where
  "getDirectivesOfNode bt node = map_of (bt_directives bt) node"

definition getReferenceTarget :: "R3BoundTarget \<Rightarrow> Reference \<Rightarrow> ReferenceTarget option" where
  "getReferenceTarget bt ref = map_of (bt_references bt) ref"

definition getConsumerOfBinding :: "R3BoundTarget \<Rightarrow> BindingKey \<Rightarrow> BindingConsumer option" where
  "getConsumerOfBinding bt binding = map_of (bt_bindings bt) binding"

definition getExpressionTarget :: "R3BoundTarget \<Rightarrow> AST \<Rightarrow> Entity option" where
  "getExpressionTarget bt expr = map_of (bt_exprTargets bt) expr"

definition getTemplateOfSymbol :: "R3BoundTarget \<Rightarrow> Entity \<Rightarrow> Node option" where
  "getTemplateOfSymbol bt symbol = map_of (bt_symbols bt) symbol"

definition getNestingLevel :: "R3BoundTarget \<Rightarrow> Node \<Rightarrow> nat" where
  "getNestingLevel bt template =
     (case map_of (bt_nestingLevel bt) template of Some n \<Rightarrow> n | None \<Rightarrow> 0)"

definition getUsedPipes :: "R3BoundTarget \<Rightarrow> string list" where
  "getUsedPipes bt = bt_usedPipes bt"

text \<open>\<open>R3TargetBinder.bind\<close>: a thrown \<open>Error\<close> is the left summand.\<close>

definition bind :: "(string \<Rightarrow> Node \<Rightarrow> DirectiveMeta list) \<Rightarrow> Target \<Rightarrow> error + R3BoundTarget" where
  "bind directiveMatcher target =
     (case target_template target of
        None \<Rightarrow> Inl NoTemplate
      | Some template \<Rightarrow>
          (let scope = Scope_apply template;
               templateEntities = extractTemplateEntities scope;
               db = DirectiveBinder_apply template directiveMatcher
           in case TemplateBinder_applyWithScope template scope of
                Inl e \<Rightarrow> Inl e
              | Inr tb \<Rightarrow>
                  Inr \<lparr>bt_target = target, bt_directives = db_directives db,
                       bt_bindings = db_bindings db, bt_references = db_references db,
                       bt_exprTargets = tb_bindings tb, bt_symbols = tb_symbols tb,
                       bt_nestingLevel = tb_nestingLevel tb,
                       bt_templateEntities = templateEntities,
                       bt_usedPipes = tb_usedPipes tb\<rparr>))"

section \<open>Token stream operations of \<open>_ParseAST\<close>\<close>

definition advance :: "ParseAST \<Rightarrow> ParseAST" where
  "advance st = st\<lparr>index := index st + 1\<rparr>"

definition locationText :: "ParseAST \<Rightarrow> nat option \<Rightarrow> string" where
  "locationText st idx =
     (let i = (case idx of None \<Rightarrow> index st | Some i \<Rightarrow> i)
      in if i < length (tokens st)
         then ''at column '' @ digits (tok_index (tokens st ! i) + 1) @ '' in''
         else ''at the end of the expression'')"

definition pushError :: "string \<Rightarrow> string \<Rightarrow> ParseAST \<Rightarrow> ParseAST" where
  "pushError msg loc st =
     st\<lparr>errors := errors st @
          [\<lparr>message = msg, err_input = input st, errLocation = loc,
            ctxLocation = Some (location st)\<rparr>]\<rparr>"

definition atRecoveryPoint :: "ParseAST \<Rightarrow> bool" where
  "atRecoveryPoint st \<longleftrightarrow>
     \<not> (index st < length (tokens st) \<and> \<not> isCharacter (next_tok st) SEMICOLON \<and>
        \<not> isOperator (next_tok st) ''|'' \<and>
        (rparensExpected st \<le> 0 \<or> \<not> isCharacter (next_tok st) RPAREN) \<and>
        (rbracesExpected st \<le> 0 \<or> \<not> isCharacter (next_tok st) RBRACE) \<and>
        (rbracketsExpected st \<le> 0 \<or> \<not> isCharacter (next_tok st) RBRACKET) \<and>
        (contextFlags st AND Ctx_Writable = 0 \<or> \<not> isOperator (next_tok st) ''=''))"

function skip :: "ParseAST \<Rightarrow> ParseAST" where
  "skip st =
     (if \<not> atRecoveryPoint st
      then skip (advance
             (if isError (next_tok st)
              then pushError (tokToString (next_tok st)) (locationText st None) st
              else st))
      else st)"
  by pat_completeness auto
termination
  by (relation "measure (\<lambda>st. length (tokens st) - index st)")
     (auto simp: atRecoveryPoint_def advance_def pushError_def)

declare skip.simps [simp del]

definition error :: "string \<Rightarrow> nat option \<Rightarrow> ParseAST \<Rightarrow> ParseAST" where
  "error msg idx st = skip (pushError msg (locationText st idx) st)"

definition consumeOptionalCharacter :: "int \<Rightarrow> ParseAST \<Rightarrow> bool \<times> ParseAST" where
  "consumeOptionalCharacter code st =
     (if isCharacter (next_tok st) code then (True, advance st) else (False, st))"

definition expectCharacter :: "int \<Rightarrow> ParseAST \<Rightarrow> ParseAST" where
  "expectCharacter code st =
     (case consumeOptionalCharacter code st of
        (True, st1) \<Rightarrow> st1
      | (False, st1) \<Rightarrow> error (''Missing expected '' @ fromCharCode code) None st1)"

definition consumeOptionalOperator :: "string \<Rightarrow> ParseAST \<Rightarrow> bool \<times> ParseAST" where
  "consumeOptionalOperator op st =
     (if isOperator (next_tok st) op then (True, advance st) else (False, st))"


definition prettyPrintToken :: "ParseAST \<Rightarrow> Token \<Rightarrow> string" where
  "prettyPrintToken st tok =
     (if atEOF st then ''end of input'' else ''token '' @ tokToString tok)"

definition reportErrorForPrivateIdentifier :: "Token \<Rightarrow> string option \<Rightarrow> ParseAST \<Rightarrow> ParseAST" where
  "reportErrorForPrivateIdentifier token extraMessage st =
     (let errorMessage =
            ''Private identifiers are not supported. Unexpected private identifier: '' @
            tokToString token;
          errorMessage1 = (case extraMessage of
                             Some extra \<Rightarrow> errorMessage @ '', '' @ extra
                           | None \<Rightarrow> errorMessage)
      in error errorMessage1 None st)"

definition expectIdentifierOrKeyword :: "ParseAST \<Rightarrow> string option \<times> ParseAST" where
  "expectIdentifierOrKeyword st =
     (let n = next_tok st
      in if \<not> isIdentifier n \<and> \<not> isKeyword n
         then (if isPrivateIdentifier n
               then (None, reportErrorForPrivateIdentifier n (Some ''expected identifier or keyword'') st)
               else (None, error (''Unexpected '' @ prettyPrintToken st n @
                                   '', expected identifier or keyword'') None st))
         else (Some (tokToString n), advance st))"

definition expectIdentifierOrKeywordOrString :: "ParseAST \<Rightarrow> string \<times> ParseAST" where
  "expectIdentifierOrKeywordOrString st =
     (let n = next_tok st
      in if \<not> isIdentifier n \<and> \<not> isKeyword n \<and> \<not> isString n
         then (if isPrivateIdentifier n
               then ([], reportErrorForPrivateIdentifier n
                           (Some ''expected identifier, keyword or string'') st)
               else ([], error (''Unexpected '' @ prettyPrintToken st n @
                                 '', expected identifier, keyword, or string'') None st))
         else (tokToString n, advance st))"

definition consumeOptionalAssignment :: "ParseAST \<Rightarrow> bool \<times> ParseAST" where
  "consumeOptionalAssignment st =
     (if parseFlags st AND Flags_AssignmentEvent \<noteq> 0 \<and> isOperator (next_tok st) ''!'' \<and>
         isOperator (peek st 1) ''=''
      then (True, advance (advance st))
      else consumeOptionalOperator ''='' st)"


text \<open>
  \<open>sourceSpan\<close> answers from \<open>sourceSpanCache\<close> when the serial is cached and stores the span
  it computes otherwise.
\<close>

definition sourceSpan :: "nat \<Rightarrow> nat option \<Rightarrow> ParseAST \<Rightarrow> AbsoluteSourceSpan \<times> ParseAST" where
  "sourceSpan start artificialEndIndex st =
     (let serial = (start, inputIndex st, artificialEndIndex)
      in case sourceSpanCache st serial of
           Some sp \<Rightarrow> (sp, st)
         | None \<Rightarrow>
             (let sp = toAbsolute (span st start artificialEndIndex) (absoluteOffset st)
              in (sp, st\<lparr>sourceSpanCache := (sourceSpanCache st)(serial \<mapsto> sp)\<rparr>)))"

text \<open>\<open>new C(this.span(start), this.sourceSpan(start), ...)\<close>.\<close>

definition newNode :: "(ParseSpan \<Rightarrow> AbsoluteSourceSpan \<Rightarrow> 'a) \<Rightarrow> nat \<Rightarrow> ParseAST \<Rightarrow> 'a \<times> ParseAST" where
  "newNode mk start st =
     (case sourceSpan start None st of (ss, st1) \<Rightarrow> (mk (span st start None) ss, st1))"

definition enterContext :: "nat \<Rightarrow> ParseAST \<Rightarrow> ParseAST" where
  "enterContext c st = st\<lparr>contextFlags := contextFlags st OR c\<rparr>"

definition leaveContext :: "nat \<Rightarrow> ParseAST \<Rightarrow> ParseAST" where
  "leaveContext c st = st\<lparr>contextFlags := contextFlags st XOR c\<rparr>"

text \<open>The loop \<open>while (this.consumeOptionalCharacter(chars.$SEMICOLON)) {}\<close> of \<open>parseChain\<close>.\<close>

function consumeSemicolons :: "ParseAST \<Rightarrow> ParseAST" where
  "consumeSemicolons st =
     (case consumeOptionalCharacter SEMICOLON st of
        (True, st1) \<Rightarrow> consumeSemicolons st1
      | (False, st1) \<Rightarrow> st1)"
  by pat_completeness auto
termination
  by (relation "measure (\<lambda>st. length (tokens st) - index st)")
     (auto simp: consumeOptionalCharacter_def advance_def isCharacter_def next_tok_def peek_def
        EOF_def Let_def split: if_splits)

declare consumeSemicolons.simps [simp del]

section \<open>The expression grammar\<close>

text \<open>
  The productions of the grammar call each other recursively.  Every recursive call goes through
  \<open>parsePipe\<close> or \<open>parseConditional\<close>, so each production is defined once with the two
  parameters \<open>pp\<close> and \<open>pc\<close> that stand for \<open>this.parsePipe()\<close> and \<open>this.parseConditional()\<close>,
  and the two are tied to \<open>parsePipe\<close> and \<open>parseConditional\<close> at the end, by recursion on a
  bound on the depth of the nesting.  A loop is a function that calls itself, with a bound \<open>k\<close> on
  the number of its rounds.  A run that uses up a bound answers \<open>None\<close>.
\<close>

type_synonym 'a production = "ParseAST \<Rightarrow> ('a \<times> ParseAST) option"

text \<open>
  The loops \<open>while (...) { this.advance(); right = operand(); result = new Binary(...) }\<close> of the
  seven binary productions are one function of the operand production and the operators of the
  level.
\<close>

fun binaryLoop ::
  "nat \<Rightarrow> AST production \<Rightarrow> string list \<Rightarrow> nat \<Rightarrow> AST \<Rightarrow> AST production" where
  "binaryLoop 0 operand ops start result st = None"
| "binaryLoop (Suc k) operand ops start result st =
     (if tok_type (next_tok st) = TOperator \<and> strValue (next_tok st) \<in> set ops
      then do {
        let operator = strValue (next_tok st);
        (right, st1) \<leftarrow> operand (advance st);
        (b, st2) \<leftarrow> Some (newNode (\<lambda>sp ss. Binary sp ss operator result right) start st1);
        binaryLoop k operand ops start b st2
      }
      else Some (result, st))"

definition parseAccessMember ::
  "AST production \<Rightarrow> AST \<Rightarrow> nat \<Rightarrow> bool \<Rightarrow> AST production" where
  "parseAccessMember pc readReceiver start isSafe st = do {
     let nameStart = inputIndex st;
     (id, st3) \<leftarrow> Some
       (case expectIdentifierOrKeyword (enterContext Ctx_Writable st) of
          (ido, st1) \<Rightarrow>
            (let id = (case ido of Some s \<Rightarrow> s | None \<Rightarrow> []);
                 st2 = (if length id = 0
                        then error ''Expected identifier for property access''
                               (Some (span_end (ast_span readReceiver))) st1
                        else st1)
             in (id, leaveContext Ctx_Writable st2)));
     (nameSpan, st4) \<leftarrow> Some (sourceSpan nameStart None st3);
     if isSafe
     then (case consumeOptionalAssignment st4 of
             (True, st5) \<Rightarrow>
               Some (newNode EmptyExpr start
                       (error ''The '?.' operator cannot be used in the assignment'' None st5))
           | (False, st5) \<Rightarrow>
               Some (newNode (\<lambda>sp ss. SafePropertyRead sp ss nameSpan readReceiver id) start st5))
     else (case consumeOptionalAssignment st4 of
             (True, st5) \<Rightarrow>
               if parseFlags st5 AND Flags_Action = 0
               then Some (newNode EmptyExpr start
                            (error ''Bindings cannot contain assignments'' None st5))
               else do {
                 (value, st6) \<leftarrow> pc st5;
                 Some (newNode (\<lambda>sp ss. PropertyWrite sp ss nameSpan readReceiver id value) start st6)
               }
           | (False, st5) \<Rightarrow>
               Some (newNode (\<lambda>sp ss. PropertyRead sp ss nameSpan readReceiver id) start st5))
   }"

fun parseCallArguments_loop :: "nat \<Rightarrow> AST production \<Rightarrow> AST list \<Rightarrow> (AST list) production" where
  "parseCallArguments_loop 0 pp positionals st = None"
| "parseCallArguments_loop (Suc k) pp positionals st = do {
     (e, st1) \<leftarrow> pp st;
     case consumeOptionalCharacter COMMA st1 of
       (True, st2) \<Rightarrow> parseCallArguments_loop k pp (positionals @ [e]) st2
     | (False, st2) \<Rightarrow> Some (positionals @ [e], st2)
   }"

definition parseCallArguments :: "nat \<Rightarrow> AST production \<Rightarrow> (AST list) production" where
  "parseCallArguments k pp st =
     (if isCharacter (next_tok st) RPAREN then Some ([], st)
      else parseCallArguments_loop k pp [] st)"

definition parseCall :: "nat \<Rightarrow> AST production \<Rightarrow> AST \<Rightarrow> nat \<Rightarrow> bool \<Rightarrow> AST production" where
  "parseCall k pp receiver start isSafe st = do {
     let argumentStart = inputIndex st;
     (args, st1) \<leftarrow> parseCallArguments k pp (st\<lparr>rparensExpected := rparensExpected st + 1\<rparr>);
     let argumentSpan =
           toAbsolute (span st1 argumentStart (Some (inputIndex st1))) (absoluteOffset st1);
     let st2 = expectCharacter RPAREN st1;
     let st3 = st2\<lparr>rparensExpected := rparensExpected st2 - 1\<rparr>;
     Some (if isSafe
           then newNode (\<lambda>sp ss. SafeCall sp ss receiver args argumentSpan) start st3
           else newNode (\<lambda>sp ss. Call sp ss receiver args argumentSpan) start st3)
   }"

text \<open>The callback that \<open>parseKeyedReadOrWrite\<close> runs in the \<open>Writable\<close> context.\<close>

definition parseKeyedReadOrWrite_body ::
  "AST production \<Rightarrow> AST production \<Rightarrow> AST \<Rightarrow> nat \<Rightarrow> bool \<Rightarrow> AST production" where
  "parseKeyedReadOrWrite_body pp pc receiver start isSafe st = do {
     (key, st1) \<leftarrow> pp (st\<lparr>rbracketsExpected := rbracketsExpected st + 1\<rparr>);
     let st2 = (if isEmptyExpr key then error ''Key access cannot be empty'' None st1 else st1);
     let st3 = expectCharacter RBRACKET (st2\<lparr>rbracketsExpected := rbracketsExpected st2 - 1\<rparr>);
     case consumeOptionalOperator ''='' st3 of
       (True, st4) \<Rightarrow>
         if isSafe
         then Some (newNode EmptyExpr start
                      (error ''The '?.' operator cannot be used in the assignment'' None st4))
         else do {
           (value, st5) \<leftarrow> pc st4;
           Some (newNode (\<lambda>sp ss. KeyedWrite sp ss receiver key value) start st5)
         }
     | (False, st4) \<Rightarrow>
         Some (if isSafe
               then newNode (\<lambda>sp ss. SafeKeyedRead sp ss receiver key) start st4
               else newNode (\<lambda>sp ss. KeyedRead sp ss receiver key) start st4)
   }"

definition parseKeyedReadOrWrite ::
  "AST production \<Rightarrow> AST production \<Rightarrow> AST \<Rightarrow> nat \<Rightarrow> bool \<Rightarrow> AST production" where
  "parseKeyedReadOrWrite pp pc receiver start isSafe st = do {
     (ret, st1) \<leftarrow> parseKeyedReadOrWrite_body pp pc receiver start isSafe
                     (enterContext Ctx_Writable st);
     Some (ret, leaveContext Ctx_Writable st1)
   }"

fun parseExpressionList_loop ::
  "nat \<Rightarrow> AST production \<Rightarrow> int \<Rightarrow> AST list \<Rightarrow> (AST list) production" where
  "parseExpressionList_loop 0 pp terminator result st = None"
| "parseExpressionList_loop (Suc k) pp terminator result st =
     (if \<not> isCharacter (next_tok st) terminator
      then do {
        (e, st1) \<leftarrow> pp st;
        case consumeOptionalCharacter COMMA st1 of
          (True, st2) \<Rightarrow> parseExpressionList_loop k pp terminator (result @ [e]) st2
        | (False, st2) \<Rightarrow> Some (result @ [e], st2)
      }
      else Some (result, st))"

definition parseExpressionList :: "nat \<Rightarrow> AST production \<Rightarrow> int \<Rightarrow> (AST list) production" where
  "parseExpressionList k pp terminator st = parseExpressionList_loop k pp terminator [] st"

fun parseLiteralMap_loop ::
  "nat \<Rightarrow> AST production \<Rightarrow> LiteralMapKey list \<Rightarrow> AST list
     \<Rightarrow> (LiteralMapKey list \<times> AST list) production" where
  "parseLiteralMap_loop 0 pp keys values st = None"
| "parseLiteralMap_loop (Suc k) pp keys values st = do {
     let keyStart = inputIndex st;
     let quoted = isString (next_tok st);
     (key, st1) \<leftarrow> Some (expectIdentifierOrKeywordOrString st);
     let keys1 = keys @ [LiteralMapKey key quoted];
     (v, st3) \<leftarrow>
       (if quoted then pp (expectCharacter COLON st1)
        else case consumeOptionalCharacter COLON st1 of
               (True, st2) \<Rightarrow> pp st2
             | (False, st2) \<Rightarrow>
                 (case sourceSpan keyStart None st2 of
                    (ss, st3) \<Rightarrow>
                      Some (PropertyRead (span st2 keyStart None) ss ss
                              (ImplicitReceiver (span st2 keyStart None) ss) key, st3)));
     case consumeOptionalCharacter COMMA st3 of
       (True, st4) \<Rightarrow> parseLiteralMap_loop k pp keys1 (values @ [v]) st4
     | (False, st4) \<Rightarrow> Some ((keys1, values @ [v]), st4)
   }"

definition parseLiteralMap :: "nat \<Rightarrow> AST production \<Rightarrow> AST production" where
  "parseLiteralMap k pp st =
     (let start = inputIndex st;
          st1 = expectCharacter LBRACE st
      in case consumeOptionalCharacter RBRACE st1 of
           (False, st2) \<Rightarrow> do {
             ((keys, values), st3) \<leftarrow>
               parseLiteralMap_loop k pp [] [] (st2\<lparr>rbracesExpected := rbracesExpected st2 + 1\<rparr>);
             Some (newNode (\<lambda>sp ss. LiteralMap sp ss keys values) start
                     (expectCharacter RBRACE
                        (st3\<lparr>rbracesExpected := rbracesExpected st3 - 1\<rparr>)))
           }
         | (True, st2) \<Rightarrow> Some (newNode (\<lambda>sp ss. LiteralMap sp ss [] []) start st2))"

definition parsePrimary :: "nat \<Rightarrow> AST production \<Rightarrow> AST production \<Rightarrow> AST production" where
  "parsePrimary k pp pc st =
     (let start = inputIndex st in
      case consumeOptionalCharacter LPAREN st of
        (True, st1) \<Rightarrow> do {
          (result, st2) \<leftarrow> pp (st1\<lparr>rparensExpected := rparensExpected st1 + 1\<rparr>);
          Some (result, expectCharacter RPAREN (st2\<lparr>rparensExpected := rparensExpected st2 - 1\<rparr>))
        }
      | (False, st1) \<Rightarrow>
      if isKeywordNamed (next_tok st1) ''null''
      then Some (newNode (\<lambda>sp ss. LiteralPrimitive sp ss LNull) start (advance st1))
      else if isKeywordNamed (next_tok st1) ''undefined''
      then Some (newNode (\<lambda>sp ss. LiteralPrimitive sp ss LUndefined) start (advance st1))
      else if isKeywordNamed (next_tok st1) ''true''
      then Some (newNode (\<lambda>sp ss. LiteralPrimitive sp ss (LBool True)) start (advance st1))
      else if isKeywordNamed (next_tok st1) ''false''
      then Some (newNode (\<lambda>sp ss. LiteralPrimitive sp ss (LBool False)) start (advance st1))
      else if isKeywordNamed (next_tok st1) ''this''
      then Some (newNode ThisReceiver start (advance st1))
      else
      case consumeOptionalCharacter LBRACKET st1 of
        (True, st2) \<Rightarrow> do {
          (elements, st3) \<leftarrow>
            parseExpressionList k pp RBRACKET
              (st2\<lparr>rbracketsExpected := rbracketsExpected st2 + 1\<rparr>);
          Some (newNode (\<lambda>sp ss. LiteralArray sp ss elements) start
                  (expectCharacter RBRACKET
                     (st3\<lparr>rbracketsExpected := rbracketsExpected st3 - 1\<rparr>)))
        }
      | (False, st2) \<Rightarrow>
      if isCharacter (next_tok st2) LBRACE then parseLiteralMap k pp st2
      else if isIdentifier (next_tok st2)
      then (case newNode ImplicitReceiver start st2 of
              (receiver, st3) \<Rightarrow> parseAccessMember pc receiver start False st3)
      else if isNumber (next_tok st2)
      then Some (newNode (\<lambda>sp ss. LiteralPrimitive sp ss (LNumber (toNumber (next_tok st2)))) start
                   (advance st2))
      else if isString (next_tok st2)
      then Some (newNode (\<lambda>sp ss. LiteralPrimitive sp ss (LString (tokToString (next_tok st2))))
                   start (advance st2))
      else if isPrivateIdentifier (next_tok st2)
      then Some (newNode EmptyExpr start (reportErrorForPrivateIdentifier (next_tok st2) None st2))
      else if index st2 \<ge> length (tokens st2)
      then Some (newNode EmptyExpr start
                   (error (''Unexpected end of expression: '' @ input st2) None st2))
      else Some (newNode EmptyExpr start
                   (error (''Unexpected token '' @ tokToString (next_tok st2)) None st2)))"

fun parseCallChain_loop ::
  "nat \<Rightarrow> AST production \<Rightarrow> AST production \<Rightarrow> nat \<Rightarrow> AST \<Rightarrow> AST production" where
  "parseCallChain_loop 0 pp pc start result st = None"
| "parseCallChain_loop (Suc k) pp pc start result st =
     (case consumeOptionalCharacter PERIOD st of
        (True, st1) \<Rightarrow> do {
          (result1, st2) \<leftarrow> parseAccessMember pc result start False st1;
          parseCallChain_loop k pp pc start result1 st2
        }
      | (False, st1) \<Rightarrow>
     (case consumeOptionalOperator ''?.'' st1 of
        (True, st2) \<Rightarrow>
          (case consumeOptionalCharacter LPAREN st2 of
             (True, st3) \<Rightarrow> do {
               (result1, st4) \<leftarrow> parseCall k pp result start True st3;
               parseCallChain_loop k pp pc start result1 st4
             }
           | (False, st3) \<Rightarrow>
               (case consumeOptionalCharacter LBRACKET st3 of
                  (True, st4) \<Rightarrow> do {
                    (result1, st5) \<leftarrow> parseKeyedReadOrWrite pp pc result start True st4;
                    parseCallChain_loop k pp pc start result1 st5
                  }
                | (False, st4) \<Rightarrow> do {
                    (result1, st5) \<leftarrow> parseAccessMember pc result start True st4;
                    parseCallChain_loop k pp pc start result1 st5
                  }))
      | (False, st2) \<Rightarrow>
     (case consumeOptionalCharacter LBRACKET st2 of
        (True, st3) \<Rightarrow> do {
          (result1, st4) \<leftarrow> parseKeyedReadOrWrite pp pc result start False st3;
          parseCallChain_loop k pp pc start result1 st4
        }
      | (False, st3) \<Rightarrow>
     (case consumeOptionalCharacter LPAREN st3 of
        (True, st4) \<Rightarrow> do {
          (result1, st5) \<leftarrow> parseCall k pp result start False st4;
          parseCallChain_loop k pp pc start result1 st5
        }
      | (False, st4) \<Rightarrow>
     (case consumeOptionalOperator ''!'' st4 of
        (True, st5) \<Rightarrow>
          (case newNode (\<lambda>sp ss. NonNullAssert sp ss result) start st5 of
             (result1, st6) \<Rightarrow> parseCallChain_loop k pp pc start result1 st6)
      | (False, st5) \<Rightarrow> Some (result, st5))))))"

definition parseCallChain :: "nat \<Rightarrow> AST production \<Rightarrow> AST production \<Rightarrow> AST production" where
  "parseCallChain k pp pc st = do {
     let start = inputIndex st;
     (result, st1) \<leftarrow> parsePrimary k pp pc st;
     parseCallChain_loop k pp pc start result st1
   }"

fun parsePrefix :: "nat \<Rightarrow> AST production \<Rightarrow> AST production \<Rightarrow> AST production" where
  "parsePrefix 0 pp pc st = None"
| "parsePrefix (Suc k) pp pc st =
     (if tok_type (next_tok st) = TOperator \<and> strValue (next_tok st) \<in> {''+'', ''-'', ''!''}
      then do {
        let start = inputIndex st;
        let operator = strValue (next_tok st);
        (result, st1) \<leftarrow> parsePrefix k pp pc (advance st);
        Some (if operator = ''!''
              then newNode (\<lambda>sp ss. PrefixNot sp ss result) start st1
              else newNode (\<lambda>sp ss. Unary sp ss operator result) start st1)
      }
      else parseCallChain k pp pc st)"

definition parseMultiplicative :: "nat \<Rightarrow> AST production \<Rightarrow> AST production \<Rightarrow> AST production" where
  "parseMultiplicative k pp pc st = do {
     let start = inputIndex st;
     (result, st1) \<leftarrow> parsePrefix k pp pc st;
     binaryLoop k (parsePrefix k pp pc) [''*'', ''%'', ''/''] start result st1
   }"

definition parseAdditive :: "nat \<Rightarrow> AST production \<Rightarrow> AST production \<Rightarrow> AST production" where
  "parseAdditive k pp pc st = do {
     let start = inputIndex st;
     (result, st1) \<leftarrow> parseMultiplicative k pp pc st;
     binaryLoop k (parseMultiplicative k pp pc) [''+'', ''-''] start result st1
   }"

definition parseRelational :: "nat \<Rightarrow> AST production \<Rightarrow> AST production \<Rightarrow> AST production" where
  "parseRelational k pp pc st = do {
     let start = inputIndex st;
     (result, st1) \<leftarrow> parseAdditive k pp pc st;
     binaryLoop k (parseAdditive k pp pc) [''<'', ''>'', ''<='', ''>=''] start result st1
   }"

definition parseEquality :: "nat \<Rightarrow> AST production \<Rightarrow> AST production \<Rightarrow> AST production" where
  "parseEquality k pp pc st = do {
     let start = inputIndex st;
     (result, st1) \<leftarrow> parseRelational k pp pc st;
     binaryLoop k (parseRelational k pp pc) [''=='', ''==='', ''!='', ''!==''] start result st1
   }"

definition parseNullishCoalescing ::
  "nat \<Rightarrow> AST production \<Rightarrow> AST production \<Rightarrow> AST production" where
  "parseNullishCoalescing k pp pc st = do {
     let start = inputIndex st;
     (result, st1) \<leftarrow> parseEquality k pp pc st;
     binaryLoop k (parseEquality k pp pc) [''??''] start result st1
   }"

definition parseLogicalAnd :: "nat \<Rightarrow> AST production \<Rightarrow> AST production \<Rightarrow> AST production" where
  "parseLogicalAnd k pp pc st = do {
     let start = inputIndex st;
     (result, st1) \<leftarrow> parseNullishCoalescing k pp pc st;
     binaryLoop k (parseNullishCoalescing k pp pc) [''&&''] start result st1
   }"

definition parseLogicalOr :: "nat \<Rightarrow> AST production \<Rightarrow> AST production \<Rightarrow> AST production" where
  "parseLogicalOr k pp pc st = do {
     let start = inputIndex st;
     (result, st1) \<leftarrow> parseLogicalAnd k pp pc st;
     binaryLoop k (parseLogicalAnd k pp pc) [''||''] start result st1
   }"

text \<open>The bodies of \<open>parseConditional\<close> and \<open>parsePipe\<close>.\<close>

definition parseConditional_body ::
  "nat \<Rightarrow> AST production \<Rightarrow> AST production \<Rightarrow> AST production" where
  "parseConditional_body k pp pc st = do {
     let start = inputIndex st;
     (result, st1) \<leftarrow> parseLogicalOr k pp pc st;
     case consumeOptionalOperator ''?'' st1 of
       (True, st2) \<Rightarrow> do {
         (yes, st3) \<leftarrow> pp st2;
         (no, st6) \<leftarrow>
           (case consumeOptionalCharacter COLON st3 of
              (False, st4) \<Rightarrow>
                (let end = inputIndex st4;
                     expression = substring (input st4) start end;
                     st5 = error (''Conditional expression '' @ expression @
                                  '' requires all 3 expressions'') None st4
                 in Some (newNode EmptyExpr start st5))
            | (True, st4) \<Rightarrow> pp st4);
         Some (newNode (\<lambda>sp ss. Conditional sp ss result yes no) start st6)
       }
     | (False, st2) \<Rightarrow> Some (result, st2)
   }"

definition parseExpression :: "nat \<Rightarrow> AST production \<Rightarrow> AST production \<Rightarrow> AST production" where
  "parseExpression k pp pc st = parseConditional_body k pp pc st"

fun parsePipe_args ::
  "nat \<Rightarrow> AST production \<Rightarrow> AST production \<Rightarrow> AST list \<Rightarrow> (AST list) production" where
  "parsePipe_args 0 pp pc args st = None"
| "parsePipe_args (Suc k) pp pc args st =
     (case consumeOptionalCharacter COLON st of
        (True, st1) \<Rightarrow> do {
          (e, st2) \<leftarrow> parseExpression k pp pc st1;
          parsePipe_args k pp pc (args @ [e]) st2
        }
      | (False, st1) \<Rightarrow> Some (args, st1))"

fun parsePipe_loop ::
  "nat \<Rightarrow> AST production \<Rightarrow> AST production \<Rightarrow> nat \<Rightarrow> AST \<Rightarrow> AST production" where
  "parsePipe_loop 0 pp pc start result st = None"
| "parsePipe_loop (Suc k) pp pc start result st = do {
     let nameStart = inputIndex st;
     (nameId, nameSpan, fullSpanEnd, st2) \<leftarrow> Some
       (case expectIdentifierOrKeyword st of
          (Some nameId, st1) \<Rightarrow>
            (case sourceSpan nameStart None st1 of (nameSpan, st2) \<Rightarrow> (nameId, nameSpan, None, st2))
        | (None, st1) \<Rightarrow>
            (let fullSpanEnd = (if \<not> atEOF st1 then tok_index (next_tok st1)
                                else length (input st1) + offset st1)
             in ([], toAbsolute \<lparr>span_start = fullSpanEnd, span_end = fullSpanEnd\<rparr>
                       (absoluteOffset st1),
                 Some fullSpanEnd, st1)));
     (args, st3) \<leftarrow> parsePipe_args k pp pc [] st2;
     (result1, st4) \<leftarrow> Some
       (case sourceSpan start fullSpanEnd st3 of
          (ss, st4) \<Rightarrow> (BindingPipe (span st3 start None) ss result nameId args nameSpan, st4));
     case consumeOptionalOperator ''|'' st4 of
       (True, st5) \<Rightarrow> parsePipe_loop k pp pc start result1 st5
     | (False, st5) \<Rightarrow> Some (result1, st5)
   }"

definition parsePipe_body :: "nat \<Rightarrow> AST production \<Rightarrow> AST production \<Rightarrow> AST production" where
  "parsePipe_body k pp pc st = do {
     let start = inputIndex st;
     (result, st1) \<leftarrow> parseExpression k pp pc st;
     case consumeOptionalOperator ''|'' st1 of
       (True, st2) \<Rightarrow>
         parsePipe_loop k pp pc start result
           (if parseFlags st2 AND Flags_Action \<noteq> 0
            then error ''Cannot have a pipe in an action expression'' None st2 else st2)
     | (False, st2) \<Rightarrow> Some (result, st2)
   }"

text \<open>
  \<open>parsePipe\<close> and \<open>parseConditional\<close>: at depth \<open>Suc n\<close> the recursive calls are the productions
  of depth \<open>n\<close>, and the loops may make \<open>n\<close> rounds.
\<close>

fun parsePipe :: "nat \<Rightarrow> AST production"
  and parseConditional :: "nat \<Rightarrow> AST production" where
  "parsePipe 0 st = None"
| "parsePipe (Suc n) st = parsePipe_body n (\<lambda>s. parsePipe n s) (\<lambda>s. parseConditional n s) st"
| "parseConditional 0 st = None"
| "parseConditional (Suc n) st =
     parseConditional_body n (\<lambda>s. parsePipe n s) (\<lambda>s. parseConditional n s) st"

text \<open>
  One round of the loop of \<open>parseChain\<close>; the flag it answers with tells whether the round ended
  in the \<open>break\<close>.
\<close>

definition parseChain_body :: "AST production \<Rightarrow> AST list \<Rightarrow> (AST list \<times> bool) production" where
  "parseChain_body pp exprs st = do {
     (expr, st1) \<leftarrow> pp st;
     let exprs1 = exprs @ [expr];
     case consumeOptionalCharacter SEMICOLON st1 of
       (True, st2) \<Rightarrow>
         Some ((exprs1, False),
               consumeSemicolons
                 (if parseFlags st2 AND Flags_Action = 0
                  then error ''Binding expression cannot contain chained expression'' None st2
                  else st2))
     | (False, st2) \<Rightarrow>
         if index st2 < length (tokens st2)
         then (let errorIndex = index st2;
                   st3 = error (''Unexpected token '' @ [CHR 0x27] @ tokToString (next_tok st2) @
                                [CHR 0x27])
                           None st2
               in Some ((exprs1, index st3 = errorIndex), st3))
         else Some ((exprs1, False), st2)
   }"

fun parseChain_loop :: "nat \<Rightarrow> AST production \<Rightarrow> AST list \<Rightarrow> (AST list) production" where
  "parseChain_loop 0 pp exprs st = None"
| "parseChain_loop (Suc k) pp exprs st =
     (if index st < length (tokens st)
      then do {
        ((exprs1, break), st1) \<leftarrow> parseChain_body pp exprs st;
        if break then Some (exprs1, st1) else parseChain_loop k pp exprs1 st1
      }
      else Some (exprs, st))"

definition parseChain :: "nat \<Rightarrow> AST production" where
  "parseChain n st = do {
     let start = inputIndex st;
     (exprs, st1) \<leftarrow> parseChain_loop n (parsePipe n) [] st;
     if length exprs = 0
     then (let artificialStart = offset st1;
               artificialEnd = offset st1 + length (input st1)
           in case sourceSpan artificialStart (Some artificialEnd) st1 of
                (ss, st2) \<Rightarrow> Some (EmptyExpr (span st1 artificialStart (Some artificialEnd)) ss, st2))
     else if length exprs = 1 then Some (exprs ! 0, st1)
     else Some (newNode (\<lambda>sp ss. Chain sp ss exprs) start st1)
   }"

section \<open>Progress of the token stream operations\<close>

definition rem_tokens :: "ParseAST \<Rightarrow> nat" where
  "rem_tokens st = length (tokens st) - index st"

text \<open>\<open>st \<preceq> st'\<close>: the same tokens, and the index has not gone back.\<close>

definition later :: "ParseAST \<Rightarrow> ParseAST \<Rightarrow> bool" where
  "later st st' \<longleftrightarrow> tokens st' = tokens st \<and> index st \<le> index st'"

lemma later_refl [simp]: "later st st"
  by (simp add: later_def)

lemma later_trans: "later a b \<Longrightarrow> later b c \<Longrightarrow> later a c"
  by (auto simp: later_def)


lemma later_pushError [simp]: "later st (pushError msg loc st)"
  by (simp add: later_def pushError_def)

lemma later_advance [simp]: "later st (advance st)"
  by (simp add: later_def advance_def)

lemma later_skip: "later st (skip st)"
proof (induction st rule: skip.induct)
  case (1 st)
  show ?case
  proof (cases "atRecoveryPoint st")
    case True
    then show ?thesis by (simp add: skip.simps)
  next
    case False
    let ?st1 = "advance (if isError (next_tok st)
                 then pushError (tokToString (next_tok st)) (locationText st None) st else st)"
    have "later st ?st1" by (simp add: later_def advance_def pushError_def)
    moreover have "later ?st1 (skip ?st1)" using 1[OF False] .
    ultimately have "later st (skip ?st1)" by (rule later_trans)
    then show ?thesis using False by (subst skip.simps) simp
  qed
qed

lemma later_error: "later st (error msg idx st)"
  unfolding error_def by (rule later_trans[OF later_pushError later_skip])


lemma next_tok_real:
  "tok_type (next_tok st) \<noteq> TCharacter \<or> numValue (next_tok st) \<noteq> 0 \<Longrightarrow>
   index st < length (tokens st)"
  by (auto simp: next_tok_def peek_def EOF_def Let_def split: if_splits)

lemma isOperator_real: "isOperator (next_tok st) op \<Longrightarrow> index st < length (tokens st)"
  by (rule next_tok_real) (simp add: isOperator_def)

lemma isCharacter_real:
  "isCharacter (next_tok st) code \<Longrightarrow> code \<noteq> 0 \<Longrightarrow> index st < length (tokens st)"
  by (rule next_tok_real) (auto simp: isCharacter_def)

section \<open>Template bindings\<close>













section \<open>The \<open>Parser\<close> class\<close>

record InterpolationConfig =
  interp_start :: string
  interp_end :: string

definition DEFAULT_INTERPOLATION_CONFIG :: InterpolationConfig where
  "DEFAULT_INTERPOLATION_CONFIG = \<lparr>interp_start = ''{{'', interp_end = ''}}''\<rparr>"

text \<open>
  A \<open>Parser\<close> holds the lexer it was constructed with, of which it calls \<open>tokenize\<close>, and one
  array of errors.  Every \<open>_ParseAST\<close> it creates and every result it returns holds a reference
  to that one array, so the errors of a result are \<open>parser_errors\<close> of the parser.
\<close>

record Parser =
  tokenize :: "string \<Rightarrow> Token list"
  parser_errors :: "ParserError list"

definition new_Parser :: "(string \<Rightarrow> Token list) \<Rightarrow> Parser" where
  "new_Parser lexer = \<lparr>tokenize = lexer, parser_errors = []\<rparr>"

definition reportError :: "string \<Rightarrow> string \<Rightarrow> string \<Rightarrow> string option \<Rightarrow> Parser \<Rightarrow> Parser" where
  "reportError msg inp errLoc ctxLoc p =
     p\<lparr>parser_errors := parser_errors p @
         [\<lparr>message = msg, err_input = inp, errLocation = errLoc, ctxLocation = ctxLoc\<rparr>]\<rparr>"

text \<open>
  The generator \<open>_forEachUnquotedChar\<close>: the indices it yields, in order.  The arguments of the
  loop are the rest of the input, the index \<open>i\<close>, \<open>currentQuote\<close> and \<open>escapeCount\<close>.
\<close>

fun forEachUnquotedChar_loop :: "string \<Rightarrow> nat \<Rightarrow> char option \<Rightarrow> nat \<Rightarrow> nat list" where
  "forEachUnquotedChar_loop [] i currentQuote escapeCount = []"
| "forEachUnquotedChar_loop (c # cs) i currentQuote escapeCount =
     (let escapeCount1 = (if c = CHR 0x5C then escapeCount + 1 else 0)
      in if isQuote (charCode c) \<and> (currentQuote = None \<or> currentQuote = Some c) \<and>
            escapeCount mod 2 = 0
         then forEachUnquotedChar_loop cs (i + 1)
                (if currentQuote = None then Some c else None) escapeCount1
         else if currentQuote = None
         then i # forEachUnquotedChar_loop cs (i + 1) currentQuote escapeCount1
         else forEachUnquotedChar_loop cs (i + 1) currentQuote escapeCount1)"

definition forEachUnquotedChar :: "string \<Rightarrow> nat \<Rightarrow> nat list" where
  "forEachUnquotedChar inp start = forEachUnquotedChar_loop (drop start inp) start None 0"

fun getInterpolationEndIndex_loop :: "string \<Rightarrow> string \<Rightarrow> nat list \<Rightarrow> int" where
  "getInterpolationEndIndex_loop inp expressionEnd [] = - 1"
| "getInterpolationEndIndex_loop inp expressionEnd (charIndex # rest) =
     (if startsWith inp expressionEnd charIndex then int charIndex
      else if startsWith inp ''//'' charIndex then indexOf inp expressionEnd charIndex
      else getInterpolationEndIndex_loop inp expressionEnd rest)"

definition getInterpolationEndIndex :: "string \<Rightarrow> string \<Rightarrow> nat \<Rightarrow> int" where
  "getInterpolationEndIndex inp expressionEnd start =
     getInterpolationEndIndex_loop inp expressionEnd (forEachUnquotedChar inp start)"

text \<open>The loop of \<open>_checkNoInterpolation\<close> over the unquoted indices; the \<open>break\<close> ends it.\<close>

fun checkNoInterpolation_loop ::
  "string \<Rightarrow> string \<Rightarrow> string \<Rightarrow> nat list \<Rightarrow> int \<Rightarrow> int \<Rightarrow> int \<times> int" where
  "checkNoInterpolation_loop inp start end [] startIndex endIndex = (startIndex, endIndex)"
| "checkNoInterpolation_loop inp start end (charIndex # rest) startIndex endIndex =
     (if startIndex = - 1
      then (if startsWith inp start 0
            then checkNoInterpolation_loop inp start end rest (int charIndex) endIndex
            else checkNoInterpolation_loop inp start end rest startIndex endIndex)
      else (let endIndex1 = getInterpolationEndIndex inp end charIndex
            in if endIndex1 > - 1 then (startIndex, endIndex1)
               else checkNoInterpolation_loop inp start end rest startIndex endIndex1))"

definition checkNoInterpolation :: "string \<Rightarrow> string \<Rightarrow> InterpolationConfig \<Rightarrow> Parser \<Rightarrow> Parser" where
  "checkNoInterpolation inp loc config p =
     (case checkNoInterpolation_loop inp (interp_start config) (interp_end config)
             (forEachUnquotedChar inp 0) (- 1) (- 1) of
        (startIndex, endIndex) \<Rightarrow>
          if startIndex > - 1 \<and> endIndex > - 1
          then reportError
                 (''Got interpolation ('' @ interp_start config @ interp_end config @
                  '') where expression was expected'')
                 inp (''at column '' @ numToString startIndex @ '' in'') (Some loc) p
          else p)"

fun commentStart_loop :: "string \<Rightarrow> nat \<Rightarrow> char option \<Rightarrow> nat option" where
  "commentStart_loop (c # d # cs) i outerQuote =
     (if charCode c = SLASH \<and> charCode d = SLASH \<and> outerQuote = None then Some i
      else commentStart_loop (d # cs) (i + 1)
             (if outerQuote = Some c then None
              else if outerQuote = None \<and> isQuote (charCode c) then Some c
              else outerQuote))"
| "commentStart_loop cs i outerQuote = None"

definition commentStart :: "string \<Rightarrow> nat option" where
  "commentStart inp = commentStart_loop inp 0 None"

definition stripComments :: "string \<Rightarrow> string" where
  "stripComments inp = (case commentStart inp of Some i \<Rightarrow> substring inp 0 i | None \<Rightarrow> inp)"

text \<open>
  Modelled from the spec: the traversal of \<open>RecursiveAstVisitor\<close> (\<open>ast.ts\<close>) for
  \<open>SimpleExpressionChecker\<close>, which overrides \<open>visitPipe\<close> to record \<open>pipes\<close> and does not visit
  the children of a pipe.
\<close>

fun checkSimpleExpression :: "AST \<Rightarrow> string list"
  and checkSimpleExpressions :: "AST list \<Rightarrow> string list" where
  "checkSimpleExpression (EmptyExpr sp ss) = []"
| "checkSimpleExpression (ImplicitReceiver sp ss) = []"
| "checkSimpleExpression (ThisReceiver sp ss) = []"
| "checkSimpleExpression (Chain sp ss exprs) = checkSimpleExpressions exprs"
| "checkSimpleExpression (Conditional sp ss c y n) =
     checkSimpleExpression c @ checkSimpleExpression y @ checkSimpleExpression n"
| "checkSimpleExpression (PropertyRead sp ss ns receiver name) = checkSimpleExpression receiver"
| "checkSimpleExpression (PropertyWrite sp ss ns receiver name v) =
     checkSimpleExpression receiver @ checkSimpleExpression v"
| "checkSimpleExpression (SafePropertyRead sp ss ns receiver name) =
     checkSimpleExpression receiver"
| "checkSimpleExpression (KeyedRead sp ss receiver k) =
     checkSimpleExpression receiver @ checkSimpleExpression k"
| "checkSimpleExpression (SafeKeyedRead sp ss receiver k) =
     checkSimpleExpression receiver @ checkSimpleExpression k"
| "checkSimpleExpression (KeyedWrite sp ss receiver k v) =
     checkSimpleExpression receiver @ checkSimpleExpression k @ checkSimpleExpression v"
| "checkSimpleExpression (BindingPipe sp ss exp name args ns) = [''pipes'']"
| "checkSimpleExpression (LiteralPrimitive sp ss v) = []"
| "checkSimpleExpression (LiteralArray sp ss exprs) = checkSimpleExpressions exprs"
| "checkSimpleExpression (LiteralMap sp ss keys vals) = checkSimpleExpressions vals"
| "checkSimpleExpression (Interpolation sp ss strs exprs) = checkSimpleExpressions exprs"
| "checkSimpleExpression (Binary sp ss op l r) =
     checkSimpleExpression l @ checkSimpleExpression r"
| "checkSimpleExpression (Unary sp ss op e) = checkSimpleExpression e"
| "checkSimpleExpression (PrefixNot sp ss e) = checkSimpleExpression e"
| "checkSimpleExpression (NonNullAssert sp ss e) = checkSimpleExpression e"
| "checkSimpleExpression (Call sp ss receiver args asp) =
     checkSimpleExpression receiver @ checkSimpleExpressions args"
| "checkSimpleExpression (SafeCall sp ss receiver args asp) =
     checkSimpleExpression receiver @ checkSimpleExpressions args"
| "checkSimpleExpression (ASTWithSource ast src loc off) = checkSimpleExpression ast"
| "checkSimpleExpressions [] = []"
| "checkSimpleExpressions (a # as) = checkSimpleExpression a @ checkSimpleExpressions as"

text \<open>\<open>errors.join(' ')\<close>\<close>

fun join :: "string list \<Rightarrow> string \<Rightarrow> string" where
  "join [] sep = []"
| "join [x] sep = x"
| "join (x # y # ys) sep = x @ sep @ join (y # ys) sep"

text \<open>
  The parse operations.  Each runs \<open>parseChain\<close> with a bound above the number of tokens,
  which is never used up; the parser they answer with holds the error array after the
  operation.
\<close>

definition parseAction ::
  "Parser \<Rightarrow> string \<Rightarrow> bool \<Rightarrow> string \<Rightarrow> nat \<Rightarrow> InterpolationConfig \<Rightarrow> (AST \<times> Parser) option" where
  "parseAction p inp isAssignmentEvent loc absOffset interpolationConfig =
     (let p1 = checkNoInterpolation inp loc interpolationConfig p;
          sourceToLex = stripComments inp;
          toks = tokenize p1 sourceToLex;
          flags = (if isAssignmentEvent then Flags_Action OR Flags_AssignmentEvent
                   else Flags_Action)
      in case parseChain (length toks + 3)
                (new_ParseAST inp loc absOffset toks flags (parser_errors p1) 0) of
           None \<Rightarrow> None
         | Some (ast, st) \<Rightarrow>
             Some (ASTWithSource ast (Some inp) loc absOffset, p1\<lparr>parser_errors := errors st\<rparr>))"

definition parseBindingAst ::
  "Parser \<Rightarrow> string \<Rightarrow> string \<Rightarrow> nat \<Rightarrow> InterpolationConfig \<Rightarrow> (AST \<times> Parser) option" where
  "parseBindingAst p inp loc absOffset interpolationConfig =
     (let p1 = checkNoInterpolation inp loc interpolationConfig p;
          sourceToLex = stripComments inp;
          toks = tokenize p1 sourceToLex
      in case parseChain (length toks + 3)
                (new_ParseAST inp loc absOffset toks Flags_None (parser_errors p1) 0) of
           None \<Rightarrow> None
         | Some (ast, st) \<Rightarrow> Some (ast, p1\<lparr>parser_errors := errors st\<rparr>))"

definition parseBinding ::
  "Parser \<Rightarrow> string \<Rightarrow> string \<Rightarrow> nat \<Rightarrow> InterpolationConfig \<Rightarrow> (AST \<times> Parser) option" where
  "parseBinding p inp loc absOffset interpolationConfig =
     (case parseBindingAst p inp loc absOffset interpolationConfig of
        None \<Rightarrow> None
      | Some (ast, p1) \<Rightarrow> Some (ASTWithSource ast (Some inp) loc absOffset, p1))"

definition parseSimpleBinding ::
  "Parser \<Rightarrow> string \<Rightarrow> string \<Rightarrow> nat \<Rightarrow> InterpolationConfig \<Rightarrow> (AST \<times> Parser) option" where
  "parseSimpleBinding p inp loc absOffset interpolationConfig =
     (case parseBindingAst p inp loc absOffset interpolationConfig of
        None \<Rightarrow> None
      | Some (ast, p1) \<Rightarrow>
          (let errs = checkSimpleExpression ast;
               p2 = (if length errs > 0
                     then reportError (''Host binding expression cannot contain '' @ join errs '' '')
                            inp loc None p1
                     else p1)
           in Some (ASTWithSource ast (Some inp) loc absOffset, p2)))"



section \<open>Scopes: declarations\<close>

lemma map_of_update_other:
  "k' \<noteq> k \<Longrightarrow> map_of (AList.update k v al) k' = map_of al k'"
  by (simp add: update_conv')

lemma map_of_update_same: "map_of (AList.update k v al) k = Some v"
  by (simp add: update_conv')


lemma maybeDeclare_childScopes [simp]: "childScopes (maybeDeclare thing s) = childScopes s"
  by (simp add: maybeDeclare_def)

lemma maybeDeclare_template [simp]: "scope_template (maybeDeclare thing s) = scope_template s"
  by (simp add: maybeDeclare_def)




lemma childScopes_set_namedEntities [simp]:
  "namedEntities (childScopes_set t c s) = namedEntities s"
  by (simp add: childScopes_set_def)




section \<open>getChildScope never fails\<close>

fun direct_templates :: "Node \<Rightarrow> Node list"
  and direct_templates_list :: "Node list \<Rightarrow> Node list" where
  "direct_templates (Element i name attrs ins outs children refs) = direct_templates_list children"
| "direct_templates (Template i tag attrs ins outs tattrs children refs vars) =
     [Template i tag attrs ins outs tattrs children refs vars]"
| "direct_templates (Content sel attrs) = []"
| "direct_templates (Text v) = []"
| "direct_templates (BoundText v) = []"
| "direct_templates (Icu vars phs) = []"
| "direct_templates_list [] = []"
| "direct_templates_list (n # ns) = direct_templates n @ direct_templates_list ns"

definition child_of :: "Node \<Rightarrow> Scope" where
  "child_of t = Scope_ingest_Template t (Scope (Some t) [] [])"

definition covers :: "Scope \<Rightarrow> Node \<Rightarrow> bool" where
  "covers s t \<longleftrightarrow> map_of (childScopes s) t = Some (child_of t)"

lemma fold_visitReference_childScopes [simp]:
  "childScopes (fold visitReference refs s) = childScopes s"
  by (induction refs arbitrary: s) (auto simp: visitReference_def)

lemma fold_visitVariable_childScopes [simp]:
  "childScopes (fold visitVariable vars s) = childScopes s"
  by (induction vars arbitrary: s) (auto simp: visitVariable_def)

lemma childScopes_set_childScopes [simp]:
  "childScopes (childScopes_set t c s) = AList.update t c (childScopes s)"
  by (simp add: childScopes_set_def)

lemma covers_keep:
  "covers s t \<Longrightarrow> covers (Scope_ingest_Template u s) t"
  "covers s t \<Longrightarrow> covers (Scope_visitAll nodes s) t"
  "covers s t \<Longrightarrow> covers (Scope_visit node s) t"
proof (induction u s and nodes s and node s
       rule: Scope_ingest_Template_Scope_visitAll_Scope_visit.induct)
qed (auto simp: covers_def Let_def update_conv' child_of_def)

lemma covers_new:
  "t \<in> set (direct_templates node) \<Longrightarrow> covers (Scope_visit node s) t"
  "t \<in> set (direct_templates_list nodes) \<Longrightarrow> covers (Scope_visitAll nodes s) t"
proof (induction node and nodes arbitrary: s and s rule: direct_templates_direct_templates_list.induct)
  case (2 i tag attrs ins outs tattrs children refs vars)
  then show ?case by (simp add: covers_def Let_def update_conv' child_of_def)
next
  case (8 n ns)
  then show ?case by (auto simp: covers_keep)
qed auto

lemma child_of_covers:
  "t \<in> set (direct_templates_list children) \<Longrightarrow>
   covers (child_of (Template i tag attrs ins outs tattrs children refs vars)) t"
  by (simp add: child_of_def covers_new(2))

lemma TB_never_fails:
  "\<forall>t \<in> set (direct_templates_list (case n of Template i tag attrs ins outs tattrs children refs vars \<Rightarrow> children | _ \<Rightarrow> [])).
      covers (sr_scope sr) t \<Longrightarrow> \<exists>m'. TB_ingest_Template sr tpl lvl n m = Inr m'"
  "\<forall>t \<in> set (direct_templates_list nodes). covers (sr_scope sr) t \<Longrightarrow>
     \<exists>m'. TB_visitAll sr tpl lvl nodes m = Inr m'"
  "\<forall>t \<in> set (direct_templates node). covers (sr_scope sr) t \<Longrightarrow>
     \<exists>m'. TB_visit sr tpl lvl node m = Inr m'"
proof (induction sr tpl lvl n m and sr tpl lvl nodes m and sr tpl lvl node m
       rule: TB_ingest_Template_TB_visitAll_TB_visit.induct)
  case (1 sr tpl lvl i tag attrs ins outs tattrs children refs vars m)
  then show ?case by (auto split: sum.splits)
next
  case (4 sr tpl lvl n ns m)
  then show ?case by (auto split: sum.splits)
next
  case (6 sr tpl lvl i tag attrs ins outs tattrs children refs vars m)
  let ?t = "Template i tag attrs ins outs tattrs children refs vars"
  have c: "covers (sr_scope sr) ?t" using 6(2) by simp
  then have g: "getChildScope sr ?t = Inr (ScopeRef (child_of ?t) (Some sr))"
    by (simp add: getChildScope_def covers_def)
  have "\<forall>t \<in> set (direct_templates_list children). covers (sr_scope (ScopeRef (child_of ?t) (Some sr))) t"
    by (simp add: child_of_covers)
  with 6(1)[OF refl refl refl refl refl g] show ?case
    by (simp add: g Let_def)
qed (auto)

lemma Scope_apply_covers:
  "t \<in> set (direct_templates_list nodes) \<Longrightarrow> covers (Scope_apply nodes) t"
  by (simp add: Scope_apply_def covers_new(2))

lemma applyWithScope_succeeds:
  "\<exists>tb. TemplateBinder_applyWithScope nodes (Scope_apply nodes) = Inr tb"
  unfolding TemplateBinder_applyWithScope_def
  by (rule TB_never_fails(2)) (simp add: Scope_apply_covers)

text \<open>
  C4: \<open>bind\<close> throws exactly when the target has no template, and the error is then the one of
  its first statement.  For a target with a template the result is a bound target whatever the
  template contains; in particular the assertion of \<open>getChildScope\<close> never fails.
\<close>

theorem bind_throws_iff_no_template:
  "(bind matcher target = Inl e) = (e = NoTemplate \<and> target_template target = None)"
proof (cases "target_template target")
  case None
  then show ?thesis by (auto simp: bind_def)
next
  case (Some nodes)
  obtain tb where "TemplateBinder_applyWithScope nodes (Scope_apply nodes) = Inr tb"
    using applyWithScope_succeeds by blast
  with Some show ?thesis by (simp add: bind_def Let_def)
qed

section \<open>Nesting levels\<close>

lemma TB_visitAST_nestingLevel [simp]:
  "tb_nestingLevel (TB_visitAST sr a m) = tb_nestingLevel m"
  "tb_nestingLevel (TB_visitAllAST sr as m) = tb_nestingLevel m"
  by (induction sr a m and sr as m rule: TB_visitAST_TB_visitAllAST.induct)
     (auto simp: maybeMap_def split: option.splits)

lemma fold_nestingLevel:
  "(\<And>x m. tb_nestingLevel (f x m) = tb_nestingLevel m) \<Longrightarrow>
   tb_nestingLevel (fold f xs m) = tb_nestingLevel m"
  by (induction xs arbitrary: m) auto

lemma TB_visitSymbol_nestingLevel [simp]:
  "tb_nestingLevel (TB_visitSymbol tpl e m) = tb_nestingLevel m"
  by (simp add: TB_visitSymbol_def split: option.splits)

lemma TB_visitTemplateAttr_nestingLevel [simp]:
  "tb_nestingLevel (TB_visitTemplateAttr sr a m) = tb_nestingLevel m"
  by (simp add: TB_visitTemplateAttr_def split: TemplateAttr.splits)

lemma TB_visitPlaceholder_nestingLevel [simp]:
  "tb_nestingLevel (TB_visitPlaceholder sr p m) = tb_nestingLevel m"
  by (simp add: TB_visitPlaceholder_def split: IcuPlaceholder.splits)

definition levels_from :: "nat \<Rightarrow> TB_maps \<Rightarrow> bool" where
  "levels_from k m \<longleftrightarrow> (\<forall>t n. map_of (tb_nestingLevel m) t = Some n \<longrightarrow> k \<le> n)"

lemma levels_from_update:
  "levels_from k m \<Longrightarrow> k \<le> lvl \<Longrightarrow>
   levels_from k (m\<lparr>tb_nestingLevel := AList.update t lvl (tb_nestingLevel m)\<rparr>)"
  by (auto simp: levels_from_def update_conv')

lemma levels_from_cong:
  "tb_nestingLevel m' = tb_nestingLevel m \<Longrightarrow> levels_from k m \<Longrightarrow> levels_from k m'"
  by (simp add: levels_from_def)

lemma TB_levels:
  "levels_from 1 m \<Longrightarrow> 1 \<le> lvl \<Longrightarrow> TB_ingest_Template sr tpl lvl n m = Inr m' \<Longrightarrow>
     levels_from 1 m'"
  "levels_from 1 m \<Longrightarrow> TB_visitAll sr tpl lvl nodes m = Inr m' \<Longrightarrow> levels_from 1 m'"
  "levels_from 1 m \<Longrightarrow> TB_visit sr tpl lvl node m = Inr m' \<Longrightarrow> levels_from 1 m'"
proof (induction sr tpl lvl n m and sr tpl lvl nodes m and sr tpl lvl node m
       arbitrary: m' and m' and m'
       rule: TB_ingest_Template_TB_visitAll_TB_visit.induct)
  case (1 sr tpl lvl i tag attrs ins outs tattrs children refs vars m)
  let ?m0 = "fold (\<lambda>v. TB_visitSymbol tpl (Var v)) vars m"
  from 1(4) obtain m1 where v: "TB_visitAll sr tpl lvl children ?m0 = Inr m1"
    and m': "m' = m1\<lparr>tb_nestingLevel :=
       AList.update (Template i tag attrs ins outs tattrs children refs vars) lvl (tb_nestingLevel m1)\<rparr>"
    by (auto split: sum.splits)
  have "levels_from 1 ?m0"
    by (rule levels_from_cong[OF _ 1(2)]) (simp add: fold_nestingLevel)
  from 1(1)[OF this v] have "levels_from 1 m1" .
  then show ?case unfolding m' using 1(3) by (rule levels_from_update)
next
  case (4 sr tpl lvl n ns m)
  then show ?case by (auto split: sum.splits)
next
  case (5 sr tpl lvl i name attrs ins outs children refs m)
  let ?m0 = "fold (\<lambda>ev. TB_visitAST sr (be_handler ev)) outs
          (fold (\<lambda>a. TB_visitAST sr (ba_value a)) ins m)"
  have "levels_from 1 ?m0"
    by (rule levels_from_cong[OF _ 5(2)]) (simp add: fold_nestingLevel)
  from 5(1)[OF this] 5(3) show ?case by simp
next
  case (6 sr tpl lvl i tag attrs ins outs tattrs children refs vars m)
  let ?t = "Template i tag attrs ins outs tattrs children refs vars"
  let ?m4 = "fold (\<lambda>r. TB_visitSymbol tpl (Ref r)) refs
     (fold (TB_visitTemplateAttr sr) tattrs
       (fold (\<lambda>ev. TB_visitAST sr (be_handler ev)) outs
         (fold (\<lambda>a. TB_visitAST sr (ba_value a)) ins m)))"
  from 6(3) obtain cs where g: "getChildScope sr ?t = Inr cs"
    and i: "TB_ingest_Template cs (Some ?t) (lvl + 1) ?t ?m4 = Inr m'"
    by (auto simp: Let_def split: sum.splits)
  have l: "levels_from 1 ?m4"
    by (rule levels_from_cong[OF _ 6(2)]) (simp add: fold_nestingLevel)
  show ?case by (rule 6(1)[OF refl refl refl refl refl g l _ i]) simp
next
  case (10 sr tpl lvl vars placeholders m)
  from 10(2) have "tb_nestingLevel m' = tb_nestingLevel m"
    by (auto simp: fold_nestingLevel case_prod_beta)
  then show ?case using 10(1) by (rule levels_from_cong)
qed (auto elim: levels_from_cong[rotated])

lemma bind_levels:
  assumes "bind matcher target = Inr bt" and "map_of (bt_nestingLevel bt) t = Some n"
  shows "1 \<le> n"
proof -
  from assms(1) obtain nodes tb where
    tb: "TemplateBinder_applyWithScope nodes (Scope_apply nodes) = Inr tb"
    and nl: "bt_nestingLevel bt = tb_nestingLevel tb"
    by (auto simp: bind_def Let_def split: option.splits sum.splits)
  have "levels_from 1 \<lparr>tb_bindings = [], tb_symbols = [], tb_usedPipes = [], tb_nestingLevel = []\<rparr>"
    by (simp add: levels_from_def)
  from TB_levels(2)[OF this tb[unfolded TemplateBinder_applyWithScope_def]]
  show ?thesis using assms(2) nl by (simp add: levels_from_def)
qed

lemma visit_Template_level:
  assumes "TB_visit sr tpl lvl (Template i tag attrs ins outs tattrs children refs vars) m = Inr m'"
  shows "\<exists>cs m0 m1. TB_visitAll cs (Some (Template i tag attrs ins outs tattrs children refs vars))
             (Suc lvl) children m0 = Inr m1 \<and>
           tb_nestingLevel m' =
             AList.update (Template i tag attrs ins outs tattrs children refs vars) (Suc lvl)
               (tb_nestingLevel m1)"
  using assms by (fastforce simp: Let_def split: sum.splits)

lemma visitAll_single:
  "TB_visitAll sr tpl lvl [n] m = Inr m' \<Longrightarrow> TB_visit sr tpl lvl n m = Inr m'"
  by (auto split: sum.splits)

lemma three_levels:
  assumes t3_def: "t3 = Template i3 tg3 a3 in3 o3 ta3 ch3 r3 v3"
    and t2_def: "t2 = Template i2 tg2 a2 in2 o2 ta2 [t3] r2 v2"
    and t1_def: "t1 = Template i1 tg1 a1 in1 o1 ta1 [t2] r1 v1"
    and "target_template target = Some [t1]"
  shows "\<exists>bt. bind matcher target = Inr bt \<and> getNestingLevel bt t1 = 1 \<and>
           getNestingLevel bt t2 = 2 \<and> getNestingLevel bt t3 = 3"
proof -
  obtain tb where tb: "TemplateBinder_applyWithScope [t1] (Scope_apply [t1]) = Inr tb"
    using applyWithScope_succeeds by blast
  let ?bt = "\<lparr>bt_target = target,
      bt_directives = db_directives (DirectiveBinder_apply [t1] matcher),
      bt_bindings = db_bindings (DirectiveBinder_apply [t1] matcher),
      bt_references = db_references (DirectiveBinder_apply [t1] matcher),
      bt_exprTargets = tb_bindings tb, bt_symbols = tb_symbols tb,
      bt_nestingLevel = tb_nestingLevel tb,
      bt_templateEntities = extractTemplateEntities (Scope_apply [t1]),
      bt_usedPipes = tb_usedPipes tb\<rparr>"
  have b: "bind matcher target = Inr ?bt"
    using assms(4) tb by (simp add: bind_def Let_def)
  have s12: "size t2 < size t1" and s23: "size t3 < size t2"
    by (simp_all add: t1_def t2_def)
  then have n12: "t1 \<noteq> t2" and n23: "t2 \<noteq> t3" and n13: "t1 \<noteq> t3"
    by auto
  from tb have "TB_visit (ScopeRef (Scope_apply [t1]) None) None 0 t1
      \<lparr>tb_bindings = [], tb_symbols = [], tb_usedPipes = [], tb_nestingLevel = []\<rparr> = Inr tb"
    unfolding TemplateBinder_applyWithScope_def by (rule visitAll_single)
  from visit_Template_level[OF this[unfolded t1_def]] obtain cs1 m01 m1 where
    v1: "TB_visitAll cs1 (Some t1) (Suc 0) [t2] m01 = Inr m1"
    and l1: "tb_nestingLevel tb = AList.update t1 (Suc 0) (tb_nestingLevel m1)"
    by (auto simp: t1_def)
  from visit_Template_level[OF visitAll_single[OF v1, unfolded t2_def]] obtain cs2 m02 m2 where
    v2: "TB_visitAll cs2 (Some t2) (Suc (Suc 0)) [t3] m02 = Inr m2"
    and l2: "tb_nestingLevel m1 = AList.update t2 (Suc (Suc 0)) (tb_nestingLevel m2)"
    by (auto simp: t2_def)
  from visit_Template_level[OF visitAll_single[OF v2, unfolded t3_def]] obtain m3 :: TB_maps where
    l3: "tb_nestingLevel m2 = AList.update t3 (Suc (Suc (Suc 0))) (tb_nestingLevel m3)"
    unfolding t3_def by blast
  have "map_of (tb_nestingLevel tb) t1 = Some 1"
    by (simp add: l1 update_conv')
  moreover have "map_of (tb_nestingLevel tb) t2 = Some 2"
    using n12 by (simp add: l1 l2 update_conv')
  moreover have "map_of (tb_nestingLevel tb) t3 = Some 3"
    using n13 n23 by (simp add: l1 l2 l3 update_conv' numeral_3_eq_3)
  ultimately show ?thesis using b by (auto simp: getNestingLevel_def)
qed

section \<open>Lookup\<close>

fun scope_chain :: "ScopeRef \<Rightarrow> Scope list" where
  "scope_chain (ScopeRef s parent) =
     s # (case parent of Some p \<Rightarrow> scope_chain p | None \<Rightarrow> [])"

lemma lookup_chain:
  "lookup sr name =
     (case find (\<lambda>s. map_of (namedEntities s) name \<noteq> None) (scope_chain sr) of
        Some s \<Rightarrow> map_of (namedEntities s) name
      | None \<Rightarrow> None)"
  by (induction sr name rule: lookup.induct) (auto split: option.splits)

definition mkSpan :: "nat \<Rightarrow> nat \<Rightarrow> ParseSpan" where
  "mkSpan a b = \<lparr>span_start = a, span_end = b\<rparr>"

definition mkAbs :: "nat \<Rightarrow> nat \<Rightarrow> AbsoluteSourceSpan" where
  "mkAbs a b = \<lparr>abs_start = a, abs_end = b\<rparr>"

definition ex_items :: AST where
  "ex_items = ASTWithSource
     (PropertyRead (mkSpan 12 17) (mkAbs 25 30) (mkAbs 25 30)
        (ImplicitReceiver (mkSpan 11 12) (mkAbs 24 25)) ''items'')
     (Some ''items'') ''t.html'' 25"

definition ex_other :: AST where
  "ex_other = ASTWithSource
     (PropertyRead (mkSpan 12 17) (mkAbs 58 63) (mkAbs 58 63)
        (ImplicitReceiver (mkSpan 11 12) (mkAbs 57 58)) ''other'')
     (Some ''other'') ''t.html'' 58"

definition ex_item_read :: AST where
  "ex_item_read = PropertyRead (mkSpan 2 6) (mkAbs 67 71) (mkAbs 67 71)
        (ImplicitReceiver (mkSpan 2 2) (mkAbs 67 67)) ''item''"

definition ex_interpolation :: AST where
  "ex_interpolation = ASTWithSource
     (Interpolation (mkSpan 0 8) (mkAbs 65 73) [[], []] [ex_item_read])
     (Some ''{{item}}'') ''t.html'' 65"

definition ex_outer_item :: Variable where
  "ex_outer_item = Variable 1 ''item'' ''$implicit''"

definition ex_inner_item :: Variable where
  "ex_inner_item = Variable 2 ''item'' ''$implicit''"

definition ex_inner_template :: Node where
  "ex_inner_template =
     Template 3 ''span'' [] [] []
       [TemplateText (TextAttribute 4 ''ngFor'' []),
        TemplateBound (BoundAttribute 5 ''ngForOf'' ex_other)]
       [Element 6 ''span'' [] [] [] [BoundText ex_interpolation] []]
       [] [ex_inner_item]"

definition ex_outer_template :: Node where
  "ex_outer_template =
     Template 7 ''div'' [] [] []
       [TemplateText (TextAttribute 8 ''ngFor'' []),
        TemplateBound (BoundAttribute 9 ''ngForOf'' ex_items)]
       [Element 10 ''div'' [] [] [] [ex_inner_template] []]
       [] [ex_outer_item]"

lemmas ex_defs = ex_outer_template_def ex_inner_template_def ex_inner_item_def ex_outer_item_def
  ex_interpolation_def ex_item_read_def ex_other_def ex_items_def mkSpan_def mkAbs_def

lemma ex_expression_target:
  "\<exists>bt. bind matcher \<lparr>target_template = Some [ex_outer_template]\<rparr> = Inr bt \<and>
     getExpressionTarget bt ex_item_read = Some (Var ex_inner_item)"
  by (simp add: bind_def Let_def TemplateBinder_applyWithScope_def Scope_apply_def ex_defs
      visitVariable_def visitReference_def maybeDeclare_def childScopes_set_def
      getChildScope_def TB_visitSymbol_def TB_visitTemplateAttr_def maybeMap_def
      getExpressionTarget_def)

section \<open>Visible entities\<close>

definition names_ok :: "(string \<times> Entity) list \<Rightarrow> bool" where
  "names_ok m \<longleftrightarrow> distinct (map fst m) \<and> (\<forall>p \<in> set m. entity_name (snd p) = fst p)"

lemma names_ok_Nil [simp]: "names_ok []"
  by (simp add: names_ok_def)






inductive scope_ok :: "Scope \<Rightarrow> bool" where
  "names_ok ne \<Longrightarrow> (\<forall>p \<in> set cs. scope_ok (snd p)) \<Longrightarrow> scope_ok (Scope t ne cs)"

lemma scope_ok_iff:
  "scope_ok s \<longleftrightarrow> names_ok (namedEntities s) \<and> (\<forall>p \<in> set (childScopes s). scope_ok (snd p))"
  by (cases s) (auto intro: scope_ok.intros elim: scope_ok.cases)





lemma scope_ok_empty [simp]: "scope_ok (Scope t [] [])"
  by (simp add: scope_ok_iff[of "Scope _ _ _"])














definition no_directives :: "string \<Rightarrow> Node \<Rightarrow> DirectiveMeta list" where
  "no_directives elementName node = []"

definition nest_inner :: Node where
  "nest_inner = Template 3 ''ng-template'' [] [] [] [] [] [] []"

definition nest_middle :: Node where
  "nest_middle = Template 2 ''ng-template'' [] [] [] [] [nest_inner] [] []"

definition nest_outer :: Node where
  "nest_outer = Template 1 ''ng-template'' [] [] [] [] [nest_middle] [] []"

definition nest_target :: Target where
  "nest_target = \<lparr>target_template = Some [nest_outer]\<rparr>"

definition ex_target :: Target where
  "ex_target = \<lparr>target_template = Some [ex_outer_template]\<rparr>"

lemmas bind_eval = bind_def Let_def TemplateBinder_applyWithScope_def Scope_apply_def
      visitVariable_def visitReference_def maybeDeclare_def childScopes_set_def
      getChildScope_def TB_visitSymbol_def TB_visitTemplateAttr_def maybeMap_def
      DirectiveBinder_apply_def DB_bindNode_def no_directives_def

text \<open>
  C1, as stated, fails: for three \<open>ng-template\<close> elements nested in each other the level of
  the outermost one is 1, not 0.
\<close>

theorem nesting_level_counterexample:
  "\<not> isl (bind no_directives nest_target) \<and>
   getNestingLevel (projr (bind no_directives nest_target)) nest_outer = 1 \<and>
   getNestingLevel (projr (bind no_directives nest_target)) nest_outer \<noteq> 0"
  by (simp add: bind_eval nest_target_def nest_outer_def nest_middle_def nest_inner_def
      getNestingLevel_def)

text \<open>
  C1, amended: every nesting level recorded for a \<open>Template\<close> node is at least 1 (level 0 is
  the top-level node list, which is no \<open>Template\<close>), and for a \<open>Template\<close> whose only child is a
  \<open>Template\<close> whose only child is a \<open>Template\<close>, \<open>getNestingLevel\<close> returns 1, 2 and 3 from the
  outermost to the innermost.
\<close>

theorem nesting_levels_start_at_one:
  "(bind matcher target = Inr bt \<and> map_of (bt_nestingLevel bt) t = Some n \<longrightarrow> 1 \<le> n) \<and>
   (target_template target' =
      Some [Template i1 tg1 a1 in1 o1 ta1
              [Template i2 tg2 a2 in2 o2 ta2
                 [Template i3 tg3 a3 in3 o3 ta3 ch3 r3 v3] r2 v2] r1 v1] \<longrightarrow>
    (\<exists>bt'. bind matcher' target' = Inr bt' \<and>
       getNestingLevel bt'
         (Template i1 tg1 a1 in1 o1 ta1
            [Template i2 tg2 a2 in2 o2 ta2
               [Template i3 tg3 a3 in3 o3 ta3 ch3 r3 v3] r2 v2] r1 v1) = 1 \<and>
       getNestingLevel bt'
         (Template i2 tg2 a2 in2 o2 ta2 [Template i3 tg3 a3 in3 o3 ta3 ch3 r3 v3] r2 v2) = 2 \<and>
       getNestingLevel bt' (Template i3 tg3 a3 in3 o3 ta3 ch3 r3 v3) = 3))"
  using bind_levels[of matcher target bt t n]
    three_levels[OF refl refl refl, of target' i1 tg1 a1 in1 o1 ta1 i2 tg2 a2 in2 o2 ta2
      i3 tg3 a3 in3 o3 ta3 ch3 r3 v3 r2 v2 r1 v1 matcher']
  by blast

theorem nesting_levels_start_at_one_witness:
  "\<exists>bt n. bind no_directives nest_target = Inr bt \<and>
     map_of (bt_nestingLevel bt) nest_outer = Some n \<and> 1 \<le> n \<and>
     target_template nest_target = Some [nest_outer] \<and>
     getNestingLevel bt nest_outer = 1 \<and> getNestingLevel bt nest_middle = 2 \<and>
     getNestingLevel bt nest_inner = 3"
proof -
  have tt: "target_template nest_target =
      Some [Template 1 ''ng-template'' [] [] [] []
              [Template 2 ''ng-template'' [] [] [] []
                 [Template 3 ''ng-template'' [] [] [] [] [] [] []] [] []] [] []]"
    by (simp add: nest_target_def nest_outer_def nest_middle_def nest_inner_def)
  from nesting_levels_start_at_one[of no_directives nest_target _ nest_outer _ nest_target
      1 "''ng-template''" "[]" "[]" "[]" "[]" 2 "''ng-template''" "[]" "[]" "[]" "[]"
      3 "''ng-template''" "[]" "[]" "[]" "[]" "[]" "[]" "[]" "[]" "[]" "[]" "[]" no_directives] tt
  obtain bt where bt: "bind no_directives nest_target = Inr bt"
    "getNestingLevel bt nest_outer = 1" "getNestingLevel bt nest_middle = 2"
    "getNestingLevel bt nest_inner = 3"
    unfolding nest_outer_def nest_middle_def nest_inner_def by blast
  from bt(2) have m: "map_of (bt_nestingLevel bt) nest_outer = Some 1"
    by (simp add: getNestingLevel_def split: option.splits)
  from nesting_levels_start_at_one[of no_directives nest_target bt nest_outer 1] bt(1) m
  have "(1::nat) \<le> 1" by blast
  with bt m tt show ?thesis
    unfolding nest_outer_def nest_middle_def nest_inner_def by blast
qed





text \<open>
  C6: \<open>lookup\<close> answers with the entity of the first scope, from the scope itself outwards to the
  root, that declares the name, and with null when none does.  In the template
  \<open><div *ngFor="let item of items"><span *ngFor="let item of other">{{item}}</span></div>\<close> the
  expression \<open>item\<close> of the inner interpolation is bound to the variable of the inner template.
\<close>

theorem lookup_returns_innermost:
  "lookup sr name =
     (case find (\<lambda>s. map_of (namedEntities s) name \<noteq> None) (scope_chain sr) of
        Some s \<Rightarrow> map_of (namedEntities s) name
      | None \<Rightarrow> None) \<and>
   (\<exists>bt. bind matcher ex_target = Inr bt \<and>
      getExpressionTarget bt ex_item_read = Some (Var ex_inner_item)) \<and>
   ex_inner_item \<noteq> ex_outer_item"
  using lookup_chain[of sr name] ex_expression_target[of matcher]
  by (simp add: ex_target_def ex_inner_item_def ex_outer_item_def)

section \<open>Example token lists\<close>

definition tk :: "nat \<Rightarrow> nat \<Rightarrow> TokenType \<Rightarrow> int \<Rightarrow> string \<Rightarrow> Token" where
  "tk i e t n s = \<lparr>tok_index = i, tok_end = e, tok_type = t, numValue = n, strValue = s\<rparr>"

definition ngFor_tokens :: "Token list" where
  "ngFor_tokens =
     [tk 0 3 TKeyword 0 ''let'', tk 4 8 TIdentifier 0 ''item'', tk 9 11 TIdentifier 0 ''of'',
      tk 12 17 TIdentifier 0 ''items'', tk 17 18 TCharacter 59 '';'',
      tk 19 26 TIdentifier 0 ''trackBy'', tk 26 27 TCharacter 58 '':'',
      tk 28 30 TIdentifier 0 ''fn'']"

definition demo_lexer :: "string \<Rightarrow> Token list" where
  "demo_lexer s =
     (if s = ''let item of items; trackBy: fn'' then ngFor_tokens
      else if s = ''a b'' then [tk 0 1 TIdentifier 0 ''a'', tk 2 3 TIdentifier 0 ''b'']
      else if s = ''a {{b}}'' then
        [tk 0 1 TIdentifier 0 ''a'', tk 2 3 TCharacter 123 ''{'', tk 3 4 TCharacter 123 ''{'',
         tk 4 5 TIdentifier 0 ''b'', tk 5 6 TCharacter 125 ''}'', tk 6 7 TCharacter 125 ''}'']
      else [])"

section \<open>Progress of the productions\<close>

definition moved :: "ParseAST \<Rightarrow> ParseAST \<Rightarrow> nat" where
  "moved st st' = index st' - index st"

lemma later_iff: "later st st' \<longleftrightarrow> tokens st' = tokens st \<and> index st' = index st + moved st st'"
  by (auto simp: later_def moved_def)

lemma tokens_skip [simp]: "tokens (skip st) = tokens st"
  using later_skip[of st] by (simp add: later_def)

lemma index_skip: "index (skip st) = index st + moved st (skip st)"
  using later_skip[of st] by (simp add: later_iff)

lemma tokens_error [simp]: "tokens (error msg idx st) = tokens st"
  using later_error[of st msg idx] by (simp add: later_def)

lemma index_error: "index (error msg idx st) = index st + moved st (error msg idx st)"
  using later_error[of st msg idx] by (simp add: later_iff)

lemma tokens_advance [simp]: "tokens (advance st) = tokens st"
  by (simp add: advance_def)

lemma index_advance [simp]: "index (advance st) = Suc (index st)"
  by (simp add: advance_def)

lemma consumeOptionalCharacter_True:
  "consumeOptionalCharacter code st = (True, st1) \<Longrightarrow>
   tokens st1 = tokens st \<and> index st1 = Suc (index st) \<and>
   (code \<noteq> 0 \<longrightarrow> index st < length (tokens st))"
  using isCharacter_real[of st code]
  by (auto simp: consumeOptionalCharacter_def split: if_splits)

lemma consumeOptionalCharacter_False:
  "consumeOptionalCharacter code st = (False, st1) \<Longrightarrow> st1 = st"
  by (auto simp: consumeOptionalCharacter_def split: if_splits)

lemma consumeOptionalOperator_True:
  "consumeOptionalOperator op st = (True, st1) \<Longrightarrow>
   tokens st1 = tokens st \<and> index st1 = Suc (index st) \<and> index st < length (tokens st)"
  using isOperator_real[of st op]
  by (auto simp: consumeOptionalOperator_def split: if_splits)

lemma consumeOptionalOperator_False:
  "consumeOptionalOperator op st = (False, st1) \<Longrightarrow> st1 = st"
  by (auto simp: consumeOptionalOperator_def split: if_splits)

lemma consumeOptionalAssignment_True:
  "consumeOptionalAssignment st = (True, st1) \<Longrightarrow>
   tokens st1 = tokens st \<and> index st1 = index st + moved st st1 \<and> index st < index st1 \<and>
   index st < length (tokens st)"
  using isOperator_real[of st "''!''"] isOperator_real[of st "''=''"]
  by (auto simp: consumeOptionalAssignment_def consumeOptionalOperator_def moved_def
      split: if_splits)

lemma consumeOptionalAssignment_False:
  "consumeOptionalAssignment st = (False, st1) \<Longrightarrow> st1 = st"
  by (auto simp: consumeOptionalAssignment_def consumeOptionalOperator_def split: if_splits)

lemma expectCharacter_later: "later st (expectCharacter code st)"
  using later_error[of st] by (auto simp: expectCharacter_def consumeOptionalCharacter_def later_def)

lemma tokens_expectCharacter [simp]: "tokens (expectCharacter code st) = tokens st"
  using expectCharacter_later[of st code] by (simp add: later_def)

lemma index_expectCharacter:
  "index (expectCharacter code st) = index st + moved st (expectCharacter code st)"
  using expectCharacter_later[of st code] by (simp add: later_iff)

lemma expectCharacter_consumes:
  "isCharacter (next_tok st) code \<Longrightarrow> expectCharacter code st = advance st"
  by (simp add: expectCharacter_def consumeOptionalCharacter_def)

lemma reportErrorForPrivateIdentifier_later:
  "later st (reportErrorForPrivateIdentifier t x st)"
  by (simp add: reportErrorForPrivateIdentifier_def Let_def later_error)

lemma tokens_reportErrorForPrivateIdentifier [simp]:
  "tokens (reportErrorForPrivateIdentifier t x st) = tokens st"
  using reportErrorForPrivateIdentifier_later[of st t x] by (simp add: later_def)

lemma index_reportErrorForPrivateIdentifier:
  "index (reportErrorForPrivateIdentifier t x st) =
   index st + moved st (reportErrorForPrivateIdentifier t x st)"
  using reportErrorForPrivateIdentifier_later[of st t x] by (simp add: later_iff)

lemma expectIdentifierOrKeyword_later:
  "expectIdentifierOrKeyword st = (r, st1) \<Longrightarrow>
   tokens st1 = tokens st \<and> index st1 = index st + moved st st1"
  using later_error[of st] reportErrorForPrivateIdentifier_later[of st]
  by (auto simp: expectIdentifierOrKeyword_def Let_def later_iff[symmetric] split: if_splits)

lemma expectIdentifierOrKeywordOrString_later:
  "expectIdentifierOrKeywordOrString st = (r, st1) \<Longrightarrow>
   tokens st1 = tokens st \<and> index st1 = index st + moved st st1"
  using later_error[of st] reportErrorForPrivateIdentifier_later[of st]
  by (auto simp: expectIdentifierOrKeywordOrString_def Let_def later_iff[symmetric]
      split: if_splits)

lemma sourceSpan_same:
  "sourceSpan start art st = (ss, st1) \<Longrightarrow> tokens st1 = tokens st \<and> index st1 = index st"
  by (auto simp: sourceSpan_def Let_def split: option.splits)

lemma newNode_same:
  "newNode mk start st = (r, st1) \<Longrightarrow> tokens st1 = tokens st \<and> index st1 = index st"
  by (auto simp: newNode_def dest: sourceSpan_same split: prod.splits)

lemma tokens_enterContext [simp]: "tokens (enterContext c st) = tokens st"
  by (simp add: enterContext_def)

lemma index_enterContext [simp]: "index (enterContext c st) = index st"
  by (simp add: enterContext_def)

lemma tokens_leaveContext [simp]: "tokens (leaveContext c st) = tokens st"
  by (simp add: leaveContext_def)

lemma index_leaveContext [simp]: "index (leaveContext c st) = index st"
  by (simp add: leaveContext_def)

lemma consumeSemicolons_later: "later st (consumeSemicolons st)"
proof (induction st rule: consumeSemicolons.induct)
  case (1 st)
  show ?case
  proof (cases "isCharacter (next_tok st) SEMICOLON")
    case True
    then have "later (advance st) (consumeSemicolons (advance st))"
      using 1 by (simp add: consumeOptionalCharacter_def)
    then have "later st (consumeSemicolons (advance st))"
      by (simp add: later_def)
    then show ?thesis
      using True by (subst consumeSemicolons.simps) (simp add: consumeOptionalCharacter_def)
  next
    case False
    then show ?thesis
      by (subst consumeSemicolons.simps) (simp add: consumeOptionalCharacter_def)
  qed
qed

lemma tokens_consumeSemicolons [simp]: "tokens (consumeSemicolons st) = tokens st"
  using consumeSemicolons_later[of st] by (simp add: later_def)

lemma index_consumeSemicolons:
  "index (consumeSemicolons st) = index st + moved st (consumeSemicolons st)"
  using consumeSemicolons_later[of st] by (simp add: later_iff)

text \<open>
  A production \<open>advances\<close> when it keeps the tokens and never moves the index back.  A run
  \<open>returns\<close> when it does not use up a bound, and a production is \<open>total_on m toks\<close> when it
  returns from every state over the tokens \<open>toks\<close> that has fewer than \<open>m\<close> tokens left.
\<close>

definition advances :: "'a production \<Rightarrow> bool" where
  "advances p \<longleftrightarrow> (\<forall>s r s'. p s = Some (r, s') \<longrightarrow> later s s')"

definition returns :: "'a option \<Rightarrow> bool" where
  "returns res \<longleftrightarrow> res \<noteq> None"

definition total_on :: "nat \<Rightarrow> Token list \<Rightarrow> 'a production \<Rightarrow> bool" where
  "total_on m toks p \<longleftrightarrow> (\<forall>s. tokens s = toks \<longrightarrow> rem_tokens s < m \<longrightarrow> returns (p s))"

lemma advancesD:
  "advances p \<Longrightarrow> p s = Some (r, s') \<Longrightarrow> tokens s' = tokens s \<and> index s' = index s + moved s s'"
  by (simp add: advances_def later_iff)

lemma advancesI:
  "(\<And>s r s'. p s = Some (r, s') \<Longrightarrow> tokens s' = tokens s \<and> index s \<le> index s') \<Longrightarrow> advances p"
  by (auto simp: advances_def later_def)

lemma total_onD:
  "total_on m toks p \<Longrightarrow> tokens s = toks \<Longrightarrow> length toks - index s < m \<Longrightarrow> returns (p s)"
  by (auto simp: total_on_def rem_tokens_def)

lemmas index_simps =
  index_skip index_error index_expectCharacter index_reportErrorForPrivateIdentifier
  index_consumeSemicolons

lemmas consume_dest =
  consumeOptionalCharacter_True consumeOptionalCharacter_False
  consumeOptionalOperator_True consumeOptionalOperator_False
  consumeOptionalAssignment_True consumeOptionalAssignment_False
  expectIdentifierOrKeyword_later expectIdentifierOrKeywordOrString_later
  sourceSpan_same newNode_same

subsection \<open>Every production advances\<close>

lemma snd_later:
  assumes "\<And>r st1. f st = (r, st1) \<Longrightarrow> tokens st1 = tokens st \<and> index st1 = index st + moved st st1"
  shows "tokens (snd (f st)) = tokens st \<and> index (snd (f st)) = index st + moved st (snd (f st))"
  using assms[of "fst (f st)" "snd (f st)"] by simp

lemma consumeOptionalCharacter_later:
  "consumeOptionalCharacter code st = (r, st1) \<Longrightarrow>
   tokens st1 = tokens st \<and> index st1 = index st + moved st st1"
  by (auto simp: consumeOptionalCharacter_def moved_def split: if_splits)

lemma consumeOptionalOperator_later:
  "consumeOptionalOperator op st = (r, st1) \<Longrightarrow>
   tokens st1 = tokens st \<and> index st1 = index st + moved st st1"
  by (auto simp: consumeOptionalOperator_def moved_def split: if_splits)

lemma consumeOptionalAssignment_later:
  "consumeOptionalAssignment st = (r, st1) \<Longrightarrow>
   tokens st1 = tokens st \<and> index st1 = index st + moved st st1"
  by (auto simp: consumeOptionalAssignment_def consumeOptionalOperator_def moved_def
      split: if_splits)

lemma sourceSpan_later:
  "sourceSpan start art st = (r, st1) \<Longrightarrow>
   tokens st1 = tokens st \<and> index st1 = index st + moved st st1"
  by (auto simp: moved_def dest: sourceSpan_same)

lemma newNode_later:
  "newNode mk start st = (r, st1) \<Longrightarrow>
   tokens st1 = tokens st \<and> index st1 = index st + moved st st1"
  by (auto simp: moved_def dest: newNode_same)

lemmas tokens_snd [simp] =
  snd_later[of "consumeOptionalCharacter code", OF consumeOptionalCharacter_later, THEN conjunct1]
  snd_later[of "consumeOptionalOperator op", OF consumeOptionalOperator_later, THEN conjunct1]
  snd_later[of consumeOptionalAssignment, OF consumeOptionalAssignment_later, THEN conjunct1]
  snd_later[of expectIdentifierOrKeyword, OF expectIdentifierOrKeyword_later, THEN conjunct1]
  snd_later[of expectIdentifierOrKeywordOrString, OF expectIdentifierOrKeywordOrString_later,
    THEN conjunct1]
  snd_later[of "sourceSpan start art", OF sourceSpan_later, THEN conjunct1]
  snd_later[of "newNode mk start", OF newNode_later, THEN conjunct1]
  for code op start art mk

lemmas index_snd =
  snd_later[of "consumeOptionalCharacter code", OF consumeOptionalCharacter_later, THEN conjunct2]
  snd_later[of "consumeOptionalOperator op", OF consumeOptionalOperator_later, THEN conjunct2]
  snd_later[of consumeOptionalAssignment, OF consumeOptionalAssignment_later, THEN conjunct2]
  snd_later[of expectIdentifierOrKeyword, OF expectIdentifierOrKeyword_later, THEN conjunct2]
  snd_later[of expectIdentifierOrKeywordOrString, OF expectIdentifierOrKeywordOrString_later,
    THEN conjunct2]
  snd_later[of "sourceSpan start art", OF sourceSpan_later, THEN conjunct2]
  snd_later[of "newNode mk start", OF newNode_later, THEN conjunct2]
  for code op start art mk

lemmas adv_simps = bind_eq_Some_conv case_prod_beta Let_def index_simps index_snd

text \<open>\<open>results res Q\<close>: if the run \<open>res\<close> returned, then \<open>Q\<close> holds of its result and state.\<close>

definition results :: "('a \<times> ParseAST) option \<Rightarrow> ('a \<Rightarrow> ParseAST \<Rightarrow> bool) \<Rightarrow> bool" where
  "results res Q = (case res of None \<Rightarrow> True | Some (r, s) \<Rightarrow> Q r s)"

lemma results_simps [simp]:
  "results None Q = True"
  "results (Some (r, s)) Q = Q r s"
  "results (Some p) Q = Q (fst p) (snd p)"
  by (simp_all add: results_def case_prod_beta)

lemma advances_results:
  assumes "\<And>s. results (p s) (\<lambda>r s'. tokens s' = tokens s \<and> index s \<le> index s')"
  shows "advances p"
  unfolding advances_def later_def
proof (intro allI impI)
  fix s r s'
  assume "p s = Some (r, s')"
  with assms[of s] show "tokens s' = tokens s \<and> index s \<le> index s'"
    by (simp add: results_def)
qed

lemmas adv_splits = if_splits bool.splits option.splits

lemma binaryLoop_advances:
  assumes "advances operand"
  shows "advances (binaryLoop k operand ops start result)"
proof (induction k arbitrary: result)
  case 0
  show ?case by (rule advancesI) simp
next
  case (Suc k)
  show ?case
    by (rule advancesI)
      (auto simp: adv_simps dest!: advancesD[OF Suc] advancesD[OF assms] newNode_same
        split: adv_splits)
qed

lemma parseAccessMember_advances:
  assumes "advances pc"
  shows "advances (parseAccessMember pc readReceiver start isSafe)"
  by (rule advancesI)
    (auto simp: parseAccessMember_def adv_simps
      dest!: advancesD[OF assms] newNode_same sourceSpan_same split: adv_splits)

lemma parseCallArguments_loop_advances:
  assumes "advances pp"
  shows "advances (parseCallArguments_loop k pp positionals)"
proof (induction k arbitrary: positionals)
  case 0
  show ?case by (rule advancesI) simp
next
  case (Suc k)
  show ?case
    by (rule advancesI)
      (auto simp: adv_simps dest!: advancesD[OF Suc] advancesD[OF assms] split: adv_splits)
qed

lemma parseCallArguments_advances:
  assumes "advances pp"
  shows "advances (parseCallArguments k pp)"
  by (rule advancesI)
    (auto simp: parseCallArguments_def adv_simps
      dest!: advancesD[OF parseCallArguments_loop_advances[OF assms]] split: adv_splits)

lemma parseCall_advances:
  assumes "advances pp"
  shows "advances (parseCall k pp receiver start isSafe)"
  by (rule advancesI)
    (auto simp: parseCall_def adv_simps
      dest!: advancesD[OF parseCallArguments_advances[OF assms]] newNode_same split: adv_splits)

lemma parseKeyedReadOrWrite_body_advances:
  assumes "advances pp" "advances pc"
  shows "advances (parseKeyedReadOrWrite_body pp pc receiver start isSafe)"
  by (rule advancesI)
    (auto simp: parseKeyedReadOrWrite_body_def adv_simps
      dest!: advancesD[OF assms(1)] advancesD[OF assms(2)] newNode_same split: adv_splits)

lemma parseKeyedReadOrWrite_advances:
  assumes "advances pp" "advances pc"
  shows "advances (parseKeyedReadOrWrite pp pc receiver start isSafe)"
  by (rule advancesI)
    (auto simp: parseKeyedReadOrWrite_def adv_simps
      dest!: advancesD[OF parseKeyedReadOrWrite_body_advances[OF assms]] split: adv_splits)

lemma parseExpressionList_loop_advances:
  assumes "advances pp"
  shows "advances (parseExpressionList_loop k pp terminator result)"
proof (induction k arbitrary: result)
  case 0
  show ?case by (rule advancesI) simp
next
  case (Suc k)
  show ?case
    by (rule advancesI)
      (auto simp: adv_simps dest!: advancesD[OF Suc] advancesD[OF assms] split: adv_splits)
qed

lemma parseExpressionList_advances:
  assumes "advances pp"
  shows "advances (parseExpressionList k pp terminator)"
  using parseExpressionList_loop_advances[OF assms]
  by (simp add: advances_def parseExpressionList_def)

lemma parseLiteralMap_loop_advances:
  assumes "advances pp"
  shows "advances (parseLiteralMap_loop k pp keys vals)"
proof (induction k arbitrary: keys vals)
  case 0
  show ?case by (rule advancesI) simp
next
  case (Suc k)
  show ?case
    by (rule advancesI)
      (auto simp: adv_simps dest!: advancesD[OF Suc] advancesD[OF assms] sourceSpan_same
        split: adv_splits)
qed

lemma parseLiteralMap_advances:
  assumes "advances pp"
  shows "advances (parseLiteralMap k pp)"
  by (rule advancesI)
    (auto simp: parseLiteralMap_def adv_simps
      dest!: advancesD[OF parseLiteralMap_loop_advances[OF assms]] newNode_same split: adv_splits)

lemma parsePrimary_advances:
  assumes "advances pp" "advances pc"
  shows "advances (parsePrimary k pp pc)"
  by (rule advancesI)
    (auto simp: parsePrimary_def adv_simps
      dest!: advancesD[OF assms(1)] advancesD[OF parseExpressionList_advances[OF assms(1)]]
        advancesD[OF parseLiteralMap_advances[OF assms(1)]]
        advancesD[OF parseAccessMember_advances[OF assms(2)]] newNode_same
      split: adv_splits)

lemma parseCallChain_loop_advances:
  assumes "advances pp" "advances pc"
  shows "advances (parseCallChain_loop k pp pc start result)"
proof (induction k arbitrary: result)
  case 0
  show ?case by (rule advancesI) simp
next
  case (Suc k)
  show ?case
    by (rule advancesI)
      (auto simp: adv_simps
        dest!: advancesD[OF Suc] advancesD[OF parseAccessMember_advances[OF assms(2)]]
          advancesD[OF parseCall_advances[OF assms(1)]]
          advancesD[OF parseKeyedReadOrWrite_advances[OF assms]] newNode_same
        split: adv_splits)
qed

lemma parseCallChain_advances:
  assumes "advances pp" "advances pc"
  shows "advances (parseCallChain k pp pc)"
  by (rule advancesI)
    (auto simp: parseCallChain_def adv_simps
      dest!: advancesD[OF parsePrimary_advances[OF assms]]
        advancesD[OF parseCallChain_loop_advances[OF assms]]
      split: adv_splits)

lemma parsePrefix_advances:
  assumes "advances pp" "advances pc"
  shows "advances (parsePrefix k pp pc)"
proof (induction k)
  case 0
  show ?case by (rule advancesI) simp
next
  case (Suc k)
  show ?case
    by (rule advancesI)
      (auto simp: adv_simps
        dest!: advancesD[OF Suc] advancesD[OF parseCallChain_advances[OF assms]] newNode_same
        split: adv_splits)
qed

lemma binary_level_advances:
  assumes "advances operand"
  shows "advances (\<lambda>st. do {
           (result, st1) \<leftarrow> operand st;
           binaryLoop k operand ops (inputIndex st) result st1 })"
  by (rule advancesI)
    (auto simp: adv_simps
      dest!: advancesD[OF assms] advancesD[OF binaryLoop_advances[OF assms]])

lemma parseMultiplicative_advances:
  assumes "advances pp" "advances pc"
  shows "advances (parseMultiplicative k pp pc)"
  using binary_level_advances[OF parsePrefix_advances[OF assms]]
  by (simp add: parseMultiplicative_def[abs_def] Let_def)

lemma parseAdditive_advances:
  assumes "advances pp" "advances pc"
  shows "advances (parseAdditive k pp pc)"
  using binary_level_advances[OF parseMultiplicative_advances[OF assms]]
  by (simp add: parseAdditive_def[abs_def] Let_def)

lemma parseRelational_advances:
  assumes "advances pp" "advances pc"
  shows "advances (parseRelational k pp pc)"
  using binary_level_advances[OF parseAdditive_advances[OF assms]]
  by (simp add: parseRelational_def[abs_def] Let_def)

lemma parseEquality_advances:
  assumes "advances pp" "advances pc"
  shows "advances (parseEquality k pp pc)"
  using binary_level_advances[OF parseRelational_advances[OF assms]]
  by (simp add: parseEquality_def[abs_def] Let_def)

lemma parseNullishCoalescing_advances:
  assumes "advances pp" "advances pc"
  shows "advances (parseNullishCoalescing k pp pc)"
  using binary_level_advances[OF parseEquality_advances[OF assms]]
  by (simp add: parseNullishCoalescing_def[abs_def] Let_def)

lemma parseLogicalAnd_advances:
  assumes "advances pp" "advances pc"
  shows "advances (parseLogicalAnd k pp pc)"
  using binary_level_advances[OF parseNullishCoalescing_advances[OF assms]]
  by (simp add: parseLogicalAnd_def[abs_def] Let_def)

lemma parseLogicalOr_advances:
  assumes "advances pp" "advances pc"
  shows "advances (parseLogicalOr k pp pc)"
  using binary_level_advances[OF parseLogicalAnd_advances[OF assms]]
  by (simp add: parseLogicalOr_def[abs_def] Let_def)

lemma parseConditional_body_advances:
  assumes "advances pp" "advances pc"
  shows "advances (parseConditional_body k pp pc)"
  unfolding parseConditional_body_def
  by (rule advances_results)
    (auto simp: case_prod_beta Let_def index_simps index_snd split: bind_split bool.split
      dest!: advancesD[OF assms(1)] advancesD[OF parseLogicalOr_advances[OF assms]] newNode_same)

lemma parseExpression_advances:
  assumes "advances pp" "advances pc"
  shows "advances (parseExpression k pp pc)"
  using parseConditional_body_advances[OF assms]
  by (simp add: parseExpression_def[abs_def])

lemma parsePipe_args_advances:
  assumes "advances pp" "advances pc"
  shows "advances (parsePipe_args k pp pc args)"
proof (induction k arbitrary: args)
  case 0
  show ?case by (rule advancesI) simp
next
  case (Suc k)
  show ?case
    by (rule advancesI)
      (auto simp: adv_simps
        dest!: advancesD[OF Suc] advancesD[OF parseExpression_advances[OF assms]]
        split: adv_splits)
qed

lemma parsePipe_loop_advances:
  assumes "advances pp" "advances pc"
  shows "advances (parsePipe_loop k pp pc start result)"
proof (induction k arbitrary: result)
  case 0
  show ?case by (rule advancesI) simp
next
  case (Suc k)
  show ?case
    by (rule advancesI)
      (auto simp: adv_simps
        dest!: advancesD[OF Suc] advancesD[OF parsePipe_args_advances[OF assms]]
          sourceSpan_same
        split: adv_splits)
qed

lemma parsePipe_body_advances:
  assumes "advances pp" "advances pc"
  shows "advances (parsePipe_body k pp pc)"
  by (rule advancesI)
    (auto simp: parsePipe_body_def adv_simps
      dest!: advancesD[OF parseExpression_advances[OF assms]]
        advancesD[OF parsePipe_loop_advances[OF assms]]
      split: adv_splits)

lemma parsePipe_parseConditional_advances:
  "advances (parsePipe n) \<and> advances (parseConditional n)"
proof (induction n)
  case 0
  show ?case by (simp add: advances_def)
next
  case (Suc n)
  then have pp: "advances (\<lambda>s. parsePipe n s)" and pc: "advances (\<lambda>s. parseConditional n s)"
    by simp_all
  show ?case
    using parsePipe_body_advances[OF pp pc, of n] parseConditional_body_advances[OF pp pc, of n]
    by (simp add: advances_def)
qed

lemmas parsePipe_advances = parsePipe_parseConditional_advances[THEN conjunct1]
lemmas parseConditional_advances = parsePipe_parseConditional_advances[THEN conjunct2]

subsection \<open>Every production returns\<close>

lemma returns_Some [simp]: "returns (Some x)"
  by (simp add: returns_def)

lemma returns_None [simp]: "\<not> returns None"
  by (simp add: returns_def)

lemma returns_bind:
  "returns (x \<bind> f) \<longleftrightarrow> returns x \<and> (\<forall>v. x = Some v \<longrightarrow> returns (f v))"
  by (cases x) (simp_all add: returns_def)

lemma consumeOptionalCharacter_consumed:
  "fst (consumeOptionalCharacter code st) \<Longrightarrow>
   code \<noteq> 0 \<longrightarrow>
     index st < length (tokens st) \<and> moved st (snd (consumeOptionalCharacter code st)) = 1"
  using isCharacter_real[of st code]
  by (auto simp: consumeOptionalCharacter_def moved_def split: if_splits)

lemma consumeOptionalOperator_consumed:
  "fst (consumeOptionalOperator op st) \<Longrightarrow>
   index st < length (tokens st) \<and> moved st (snd (consumeOptionalOperator op st)) = 1"
  using isOperator_real[of st op]
  by (auto simp: consumeOptionalOperator_def moved_def split: if_splits)

lemma consumeOptionalAssignment_consumed:
  "fst (consumeOptionalAssignment st) \<Longrightarrow>
   index st < length (tokens st) \<and> 0 < moved st (snd (consumeOptionalAssignment st))"
  using isOperator_real[of st "''!''"] isOperator_real[of st "''=''"]
  by (auto simp: consumeOptionalAssignment_def consumeOptionalOperator_def moved_def
      split: if_splits)

lemma operator_consumed:
  "tok_type (next_tok st) = TOperator \<Longrightarrow> index st < length (tokens st)"
  by (rule next_tok_real) simp

lemmas consumed =
  consumeOptionalCharacter_consumed consumeOptionalOperator_consumed
  consumeOptionalAssignment_consumed

lemma isCharacter_consumed:
  "isCharacter (next_tok st) code \<Longrightarrow> code \<noteq> 0 \<longrightarrow> index st < length (tokens st)"
  using isCharacter_real[of st code] by simp

lemma isOperator_consumed:
  "isOperator (next_tok st) op \<Longrightarrow> index st < length (tokens st)"
  by (rule isOperator_real)

lemmas consume_defs =
  consumeOptionalCharacter_def consumeOptionalOperator_def consumeOptionalAssignment_def

lemmas ret_simps =
  returns_bind case_prod_beta Let_def index_simps index_snd rem_tokens_def

lemma binaryLoop_returns:
  assumes adv: "advances operand"
    and tot: "\<And>s. tokens s = toks \<Longrightarrow> rem_tokens s \<le> m \<Longrightarrow> returns (operand s)"
  shows "tokens st = toks \<Longrightarrow> rem_tokens st \<le> m \<Longrightarrow> rem_tokens st < k \<Longrightarrow>
         returns (binaryLoop k operand ops start result st)"
proof (induction k arbitrary: result st)
  case 0
  then show ?case by simp
next
  case (Suc k)
  show ?case
    using Suc.prems
    by (auto simp: ret_simps split: bool.split
        dest!: advancesD[OF adv] newNode_same operator_consumed
        intro!: tot Suc.IH)
qed

lemma parseAccessMember_returns:
  assumes "advances pc" "total_on m (tokens st) pc" "rem_tokens st \<le> m"
  shows "returns (parseAccessMember pc readReceiver start isSafe st)"
  using assms(2,3) unfolding parseAccessMember_def
  by (auto simp: ret_simps total_onD[where m = m] split: bool.split
      dest!: advancesD[OF assms(1)] newNode_same consumed)

lemma parseCallArguments_loop_returns:
  assumes adv: "advances pp" and tot: "total_on m toks pp"
  shows "tokens st = toks \<Longrightarrow> rem_tokens st < m \<Longrightarrow> rem_tokens st < k \<Longrightarrow>
         returns (parseCallArguments_loop k pp positionals st)"
proof (induction k arbitrary: positionals st)
  case 0
  then show ?case by simp
next
  case (Suc k)
  show ?case
    using Suc.prems
    by (auto simp: ret_simps total_onD[OF tot] split: bool.split
        dest!: advancesD[OF adv] consumed intro!: Suc.IH)
qed

lemma parseCall_returns:
  assumes "advances pp" "total_on m (tokens st) pp" "rem_tokens st < m" "rem_tokens st < k"
  shows "returns (parseCall k pp receiver start isSafe st)"
  using assms(2-) unfolding parseCall_def parseCallArguments_def
  by (auto simp: ret_simps
      dest!: advancesD[OF parseCallArguments_loop_advances[OF assms(1)]] newNode_same
      intro!: parseCallArguments_loop_returns[OF assms(1), where m = m and toks = "tokens st"])

lemma parseKeyedReadOrWrite_returns:
  assumes "advances pp" "advances pc" "total_on m (tokens st) pp" "total_on m (tokens st) pc"
    "rem_tokens st < m"
  shows "returns (parseKeyedReadOrWrite pp pc receiver start isSafe st)"
  using assms(3-) unfolding parseKeyedReadOrWrite_def parseKeyedReadOrWrite_body_def
  by (auto simp: ret_simps total_onD[where m = m] split: bool.split
      dest!: advancesD[OF assms(1)] advancesD[OF assms(2)] newNode_same consumed)

lemma parseExpressionList_loop_returns:
  assumes adv: "advances pp" and tot: "total_on m toks pp"
  shows "tokens st = toks \<Longrightarrow> rem_tokens st < m \<Longrightarrow> rem_tokens st < k \<Longrightarrow>
         returns (parseExpressionList_loop k pp terminator result st)"
proof (induction k arbitrary: result st)
  case 0
  then show ?case by simp
next
  case (Suc k)
  show ?case
    using Suc.prems
    by (auto simp: ret_simps total_onD[OF tot] split: bool.split
        dest!: advancesD[OF adv] consumed intro!: Suc.IH)
qed

lemma parseLiteralMap_loop_returns:
  assumes adv: "advances pp" and tot: "total_on m toks pp"
  shows "tokens st = toks \<Longrightarrow> rem_tokens st < m \<Longrightarrow> rem_tokens st < k \<Longrightarrow>
         returns (parseLiteralMap_loop k pp keys vals st)"
proof (induction k arbitrary: keys vals st)
  case 0
  then show ?case by simp
next
  case (Suc k)
  show ?case
    using Suc.prems
    by (auto simp: ret_simps total_onD[OF tot] split: bool.split
        dest!: advancesD[OF adv] consumed sourceSpan_same intro!: Suc.IH)
qed

lemma parseLiteralMap_returns:
  assumes "advances pp" "total_on m (tokens st) pp" "rem_tokens st \<le> m" "rem_tokens st \<le> k"
    "isCharacter (next_tok st) LBRACE"
  shows "returns (parseLiteralMap k pp st)"
  using assms(2-) isCharacter_real[of st LBRACE] unfolding parseLiteralMap_def
  by (auto simp: ret_simps expectCharacter_consumes split: bool.split
      dest!: advancesD[OF parseLiteralMap_loop_advances[OF assms(1)]] newNode_same consumed
      intro!: parseLiteralMap_loop_returns[OF assms(1), where m = m and toks = "tokens st"])

lemma parsePrimary_returns:
  assumes "advances pp" "advances pc" "total_on m (tokens st) pp" "total_on m (tokens st) pc"
    "rem_tokens st \<le> m" "rem_tokens st \<le> k"
  shows "returns (parsePrimary k pp pc st)"
  using assms(3-) unfolding parsePrimary_def parseExpressionList_def
  by (auto simp: ret_simps total_onD[where m = m] split: bool.split
      dest!: advancesD[OF assms(1)] advancesD[OF parseExpressionList_loop_advances[OF assms(1)]]
        newNode_same consumed
      intro!: parseExpressionList_loop_returns[OF assms(1), where m = m and toks = "tokens st"]
        parseLiteralMap_returns[OF assms(1), where m = m]
        parseAccessMember_returns[OF assms(2), where m = m])

lemma parseCallChain_loop_returns:
  assumes adv: "advances pp" "advances pc" and tot: "total_on m toks pp" "total_on m toks pc"
  shows "tokens st = toks \<Longrightarrow> rem_tokens st \<le> m \<Longrightarrow> rem_tokens st < k \<Longrightarrow>
         returns (parseCallChain_loop k pp pc start result st)"
proof (induction k arbitrary: result st)
  case 0
  then show ?case by simp
next
  case (Suc k)
  note rules =
    Suc.IH parseAccessMember_returns[OF adv(2), where m = m]
    parseCall_returns[OF adv(1), where m = m]
    parseKeyedReadOrWrite_returns[OF adv, where m = m]
  note dests =
    isCharacter_consumed isOperator_consumed
    advancesD[OF parseAccessMember_advances[OF adv(2)]]
    advancesD[OF parseCall_advances[OF adv(1)]]
    advancesD[OF parseKeyedReadOrWrite_advances[OF adv]] newNode_same
  consider
    (period) "isCharacter (next_tok st) PERIOD"
    | (safe_call) "\<not> isCharacter (next_tok st) PERIOD" "isOperator (next_tok st) ''?.''"
        "isCharacter (next_tok (advance st)) LPAREN"
    | (safe_keyed) "\<not> isCharacter (next_tok st) PERIOD" "isOperator (next_tok st) ''?.''"
        "\<not> isCharacter (next_tok (advance st)) LPAREN"
        "isCharacter (next_tok (advance st)) LBRACKET"
    | (safe_member) "\<not> isCharacter (next_tok st) PERIOD" "isOperator (next_tok st) ''?.''"
        "\<not> isCharacter (next_tok (advance st)) LPAREN"
        "\<not> isCharacter (next_tok (advance st)) LBRACKET"
    | (keyed) "\<not> isCharacter (next_tok st) PERIOD" "\<not> isOperator (next_tok st) ''?.''"
        "isCharacter (next_tok st) LBRACKET"
    | (call) "\<not> isCharacter (next_tok st) PERIOD" "\<not> isOperator (next_tok st) ''?.''"
        "\<not> isCharacter (next_tok st) LBRACKET" "isCharacter (next_tok st) LPAREN"
    | (non_null) "\<not> isCharacter (next_tok st) PERIOD" "\<not> isOperator (next_tok st) ''?.''"
        "\<not> isCharacter (next_tok st) LBRACKET" "\<not> isCharacter (next_tok st) LPAREN"
        "isOperator (next_tok st) ''!''"
    | (finished) "\<not> isCharacter (next_tok st) PERIOD" "\<not> isOperator (next_tok st) ''?.''"
        "\<not> isCharacter (next_tok st) LBRACKET" "\<not> isCharacter (next_tok st) LPAREN"
        "\<not> isOperator (next_tok st) ''!''"
    by blast
  then show ?case
  proof cases
    case period
    with Suc.prems tot show ?thesis
      by (auto simp: consume_defs returns_bind rem_tokens_def dest!: dests intro!: rules)
  next
    case safe_call
    with Suc.prems tot show ?thesis
      by (auto simp: consume_defs returns_bind rem_tokens_def dest!: dests intro!: rules)
  next
    case safe_keyed
    with Suc.prems tot show ?thesis
      by (auto simp: consume_defs returns_bind rem_tokens_def dest!: dests intro!: rules)
  next
    case safe_member
    with Suc.prems tot show ?thesis
      by (auto simp: consume_defs returns_bind rem_tokens_def dest!: dests intro!: rules)
  next
    case keyed
    with Suc.prems tot show ?thesis
      by (auto simp: consume_defs returns_bind rem_tokens_def dest!: dests intro!: rules)
  next
    case call
    with Suc.prems tot show ?thesis
      by (auto simp: consume_defs returns_bind rem_tokens_def dest!: dests intro!: rules)
  next
    case non_null
    with Suc.prems tot show ?thesis
      by (auto simp: consume_defs returns_bind rem_tokens_def split: prod.split
          dest!: dests intro!: rules)
  next
    case finished
    with Suc.prems tot show ?thesis
      by (auto simp: consume_defs)
  qed
qed

lemma parseCallChain_returns:
  assumes "advances pp" "advances pc" "total_on m (tokens st) pp" "total_on m (tokens st) pc"
    "rem_tokens st \<le> m" "rem_tokens st < k"
  shows "returns (parseCallChain k pp pc st)"
  using assms(3-) unfolding parseCallChain_def
  by (auto simp: ret_simps
      dest!: advancesD[OF parsePrimary_advances[OF assms(1,2)]]
      intro!: parsePrimary_returns[OF assms(1,2), where m = m]
        parseCallChain_loop_returns[OF assms(1,2), where m = m and toks = "tokens st"])

lemma parsePrefix_returns:
  assumes adv: "advances pp" "advances pc" and tot: "total_on m toks pp" "total_on m toks pc"
  shows "tokens st = toks \<Longrightarrow> rem_tokens st \<le> m \<Longrightarrow> rem_tokens st + 1 < k \<Longrightarrow>
         returns (parsePrefix k pp pc st)"
proof (induction k arbitrary: st)
  case 0
  then show ?case by simp
next
  case (Suc k)
  show ?case
    using Suc.prems tot
    by (auto simp: ret_simps
        dest!: operator_consumed
        intro!: Suc.IH parseCallChain_returns[OF adv, where m = m])
qed

text \<open>
  A level of binary operators over an operand production that returns wherever at most \<open>m\<close>
  tokens are left.
\<close>

definition level_ok :: "nat \<Rightarrow> nat \<Rightarrow> Token list \<Rightarrow> AST production \<Rightarrow> bool" where
  "level_ok m k toks p \<longleftrightarrow>
     advances p \<and>
     (\<forall>s. tokens s = toks \<longrightarrow> rem_tokens s \<le> m \<longrightarrow> rem_tokens s + 1 < k \<longrightarrow> returns (p s))"

lemma binary_level_ok:
  assumes "level_ok m k toks operand"
  shows "level_ok m k toks (\<lambda>st. do {
           (result, st1) \<leftarrow> operand st;
           binaryLoop k operand ops (inputIndex st) result st1 })"
proof -
  from assms have adv: "advances operand"
    and tot: "\<And>s. tokens s = toks \<Longrightarrow> rem_tokens s \<le> m \<Longrightarrow> rem_tokens s + 1 < k \<Longrightarrow>
                 returns (operand s)"
    by (simp_all add: level_ok_def)
  have "returns (do {
           (result, st1) \<leftarrow> operand st;
           binaryLoop k operand ops (inputIndex st) result st1 })"
    if st: "tokens st = toks" "rem_tokens st \<le> m" "rem_tokens st + 1 < k" for st
  proof -
    have op: "returns (operand s)" if "tokens s = toks" "rem_tokens s \<le> rem_tokens st" for s
      using that st by (intro tot) simp_all
    show ?thesis
      using st op[of st]
      by (auto simp: ret_simps dest!: advancesD[OF adv]
          intro!: binaryLoop_returns[OF adv, where toks = toks and m = "rem_tokens st"] op)
  qed
  with binary_level_advances[OF adv] show ?thesis
    by (simp add: level_ok_def)
qed

lemma parseLogicalOr_level_ok:
  assumes adv: "advances pp" "advances pc" and tot: "total_on m toks pp" "total_on m toks pc"
  shows "level_ok m k toks (parseLogicalOr k pp pc)"
proof -
  have "level_ok m k toks (parsePrefix k pp pc)"
    using parsePrefix_advances[OF adv] parsePrefix_returns[OF adv tot]
    by (simp add: level_ok_def)
  then have "level_ok m k toks (parseMultiplicative k pp pc)"
    using binary_level_ok by (simp add: parseMultiplicative_def[abs_def] Let_def)
  then have "level_ok m k toks (parseAdditive k pp pc)"
    using binary_level_ok by (simp add: parseAdditive_def[abs_def] Let_def)
  then have "level_ok m k toks (parseRelational k pp pc)"
    using binary_level_ok by (simp add: parseRelational_def[abs_def] Let_def)
  then have "level_ok m k toks (parseEquality k pp pc)"
    using binary_level_ok by (simp add: parseEquality_def[abs_def] Let_def)
  then have "level_ok m k toks (parseNullishCoalescing k pp pc)"
    using binary_level_ok by (simp add: parseNullishCoalescing_def[abs_def] Let_def)
  then have "level_ok m k toks (parseLogicalAnd k pp pc)"
    using binary_level_ok by (simp add: parseLogicalAnd_def[abs_def] Let_def)
  then show ?thesis
    using binary_level_ok by (simp add: parseLogicalOr_def[abs_def] Let_def)
qed

lemma parseLogicalOr_returns:
  assumes "advances pp" "advances pc" "total_on m (tokens st) pp" "total_on m (tokens st) pc"
    "rem_tokens st \<le> m" "rem_tokens st + 1 < k"
  shows "returns (parseLogicalOr k pp pc st)"
  using parseLogicalOr_level_ok[OF assms(1-4), of k] assms(5,6)
  by (simp add: level_ok_def)

lemma parseExpression_returns:
  assumes "advances pp" "advances pc" "total_on m (tokens st) pp" "total_on m (tokens st) pc"
    "rem_tokens st \<le> m" "rem_tokens st + 1 < k"
  shows "returns (parseExpression k pp pc st)"
  using assms(3-) unfolding parseExpression_def parseConditional_body_def
  by (auto simp: ret_simps total_onD[where m = m] split: bool.split
      dest!: advancesD[OF assms(1)] advancesD[OF parseLogicalOr_advances[OF assms(1,2)]]
        newNode_same consumed
      intro!: parseLogicalOr_returns[OF assms(1,2), where m = m])

lemma parsePipe_args_returns:
  assumes adv: "advances pp" "advances pc" and tot: "total_on m toks pp" "total_on m toks pc"
  shows "tokens st = toks \<Longrightarrow> rem_tokens st \<le> m \<Longrightarrow> rem_tokens st + 1 < k \<Longrightarrow>
         returns (parsePipe_args k pp pc args st)"
proof (induction k arbitrary: args st)
  case 0
  then show ?case by simp
next
  case (Suc k)
  show ?case
    using Suc.prems tot
    by (auto simp: ret_simps split: bool.split
        dest!: advancesD[OF parseExpression_advances[OF adv]] consumed
        intro!: Suc.IH parseExpression_returns[OF adv, where m = m])
qed

lemma parsePipe_loop_returns:
  assumes adv: "advances pp" "advances pc" and tot: "total_on m toks pp" "total_on m toks pc"
  shows "tokens st = toks \<Longrightarrow> rem_tokens st \<le> m \<Longrightarrow> rem_tokens st + 2 < k \<Longrightarrow>
         returns (parsePipe_loop k pp pc start result st)"
proof (induction k arbitrary: result st)
  case 0
  then show ?case by simp
next
  case (Suc k)
  show ?case
    using Suc.prems tot
    by (auto simp: ret_simps split: bool.split option.split
        dest!: advancesD[OF parsePipe_args_advances[OF adv]] consumed sourceSpan_same
        intro!: Suc.IH parsePipe_args_returns[OF adv, where m = m and toks = toks])
qed

lemma parsePipe_body_returns:
  assumes "advances pp" "advances pc" "total_on m (tokens st) pp" "total_on m (tokens st) pc"
    "rem_tokens st \<le> m" "rem_tokens st + 1 < k"
  shows "returns (parsePipe_body k pp pc st)"
  using assms(3-) unfolding parsePipe_body_def
  by (auto simp: ret_simps split: bool.split
      dest!: advancesD[OF parseExpression_advances[OF assms(1,2)]] consumed
      intro!: parseExpression_returns[OF assms(1,2), where m = m]
        parsePipe_loop_returns[OF assms(1,2), where m = m and toks = "tokens st"])

lemma parsePipe_parseConditional_returns:
  "(\<forall>st. rem_tokens st + 3 \<le> n \<longrightarrow> returns (parsePipe n st)) \<and>
   (\<forall>st. rem_tokens st + 3 \<le> n \<longrightarrow> returns (parseConditional n st))"
proof (induction n)
  case 0
  show ?case by simp
next
  case (Suc n)
  have adv: "advances (\<lambda>s. parsePipe n s)" "advances (\<lambda>s. parseConditional n s)"
    using parsePipe_parseConditional_advances[of n] by simp_all
  have tot: "total_on (n - 2) toks (\<lambda>s. parsePipe n s)"
    "total_on (n - 2) toks (\<lambda>s. parseConditional n s)" for toks
    using Suc by (auto simp: total_on_def)
  have "returns (parsePipe (Suc n) st)" if "rem_tokens st + 3 \<le> Suc n" for st
    using that parsePipe_body_returns[OF adv tot, of st n] by simp
  moreover have "returns (parseConditional (Suc n) st)" if "rem_tokens st + 3 \<le> Suc n" for st
    using that parseExpression_returns[OF adv tot, of st n] by (simp add: parseExpression_def)
  ultimately show ?case by blast
qed

lemma parsePipe_returns: "rem_tokens st + 3 \<le> n \<Longrightarrow> returns (parsePipe n st)"
  using parsePipe_parseConditional_returns by blast

subsection \<open>The loop of \<open>parseChain\<close>\<close>

lemma parseChain_body_progress:
  assumes "advances pp" "parseChain_body pp exprs st = Some ((exprs1, break), st')"
  shows "tokens st' = tokens st \<and> index st \<le> index st' \<and>
         (index st < length (tokens st) \<longrightarrow> break \<or> index st < index st')"
proof -
  have "results (parseChain_body pp exprs st)
          (\<lambda>r st'. tokens st' = tokens st \<and> index st \<le> index st' \<and>
             (index st < length (tokens st) \<longrightarrow> snd r \<or> index st < index st'))"
    unfolding parseChain_body_def
    by (auto simp: consume_defs Let_def index_simps split: bind_split
        dest!: advancesD[OF assms(1)] isCharacter_consumed)
  with assms(2) show ?thesis by (simp add: results_def)
qed

lemma parseChain_body_returns:
  "returns (pp st) \<Longrightarrow> returns (parseChain_body pp exprs st)"
  unfolding parseChain_body_def
  by (auto simp: returns_bind Let_def split: prod.split bool.split)

lemma parseChain_loop_returns:
  assumes adv: "advances pp"
    and tot: "\<And>s. tokens s = toks \<Longrightarrow> rem_tokens s \<le> m \<Longrightarrow> returns (pp s)"
  shows "tokens st = toks \<Longrightarrow> rem_tokens st \<le> m \<Longrightarrow> rem_tokens st < k \<Longrightarrow>
         returns (parseChain_loop k pp exprs st)"
proof (induction k arbitrary: exprs st)
  case 0
  then show ?case by simp
next
  case (Suc k)
  show ?case
  proof (cases "index st < length (tokens st)")
    case False
    then show ?thesis by simp
  next
    case True
    have "returns (parseChain_body pp exprs st)"
      using Suc.prems by (intro parseChain_body_returns tot)
    then obtain exprs1 break st1
      where body: "parseChain_body pp exprs st = Some ((exprs1, break), st1)"
      by (auto simp: returns_def)
    from parseChain_body_progress[OF adv body] True
    have st1: "tokens st1 = tokens st" "index st \<le> index st1" "break \<or> index st < index st1"
      by simp_all
    show ?thesis
    proof (cases break)
      case True
      with \<open>index st < length (tokens st)\<close> body show ?thesis by simp
    next
      case False
      with st1 Suc.prems \<open>index st < length (tokens st)\<close>
      have "returns (parseChain_loop k pp exprs1 st1)"
        by (intro Suc.IH) (auto simp: rem_tokens_def)
      with False \<open>index st < length (tokens st)\<close> body show ?thesis by simp
    qed
  qed
qed

lemma parseChain_returns:
  assumes "rem_tokens st + 3 \<le> n"
  shows "returns (parseChain n st)"
proof -
  have "returns (parseChain_loop n (parsePipe n) [] st)"
    using assms
    by (intro parseChain_loop_returns[where toks = "tokens st" and m = "rem_tokens st"]
        parsePipe_advances parsePipe_returns) simp_all
  then show ?thesis
    unfolding parseChain_def
    by (auto simp: returns_bind Let_def split: prod.split)
qed

section \<open>Termination of \<open>parseChain\<close>\<close>

definition ab_tokens :: "Token list" where
  "ab_tokens = [tk 0 1 TIdentifier 0 ''a'', tk 2 3 TIdentifier 0 ''b'']"

text \<open>
  Claim C10.  \<open>parseChain\<close> returns from every state, whatever its tokens, once the bound on
  the nesting and on the rounds of the loops is three above the number of tokens; and a round of
  its loop that starts before the end of the tokens either ends in the \<open>break\<close> or leaves the
  index strictly further than it found it.
\<close>

theorem parseChain_terminates:
  assumes "length (tokens st) + 3 \<le> n"
  shows "(\<exists>ast st'. parseChain n st = Some (ast, st')) \<and>
         (index st < length (tokens st) \<longrightarrow>
            (\<exists>exprs1 break st'.
               parseChain_body (parsePipe n) exprs st = Some ((exprs1, break), st') \<and>
               (break \<or> index st < index st')))"
proof -
  from assms have fuel: "rem_tokens st + 3 \<le> n"
    by (simp add: rem_tokens_def)
  have "returns (parseChain n st)"
    using fuel by (rule parseChain_returns)
  then have 1: "\<exists>ast st'. parseChain n st = Some (ast, st')"
    by (auto simp: returns_def)
  have "returns (parseChain_body (parsePipe n) exprs st)"
    using fuel by (intro parseChain_body_returns parsePipe_returns)
  then obtain exprs1 break st'
    where body: "parseChain_body (parsePipe n) exprs st = Some ((exprs1, break), st')"
    by (auto simp: returns_def)
  from parseChain_body_progress[OF parsePipe_advances body] body
  have 2: "index st < length (tokens st) \<longrightarrow>
            (\<exists>exprs1 break st'.
               parseChain_body (parsePipe n) exprs st = Some ((exprs1, break), st') \<and>
               (break \<or> index st < index st'))"
    by blast
  from 1 2 show ?thesis by blast
qed

theorem parseChain_terminates_witness:
  "length (tokens (new_ParseAST ''a b'' ''t.html'' 0 ab_tokens Flags_None [] 0)) + 3 \<le> 5 \<and>
   index (new_ParseAST ''a b'' ''t.html'' 0 ab_tokens Flags_None [] 0)
     < length (tokens (new_ParseAST ''a b'' ''t.html'' 0 ab_tokens Flags_None [] 0)) \<and>
   (\<exists>ast st'. parseChain 5 (new_ParseAST ''a b'' ''t.html'' 0 ab_tokens Flags_None [] 0)
      = Some (ast, st')) \<and>
   (\<exists>exprs1 break st'.
      parseChain_body (parsePipe 5) []
        (new_ParseAST ''a b'' ''t.html'' 0 ab_tokens Flags_None [] 0)
        = Some ((exprs1, break), st') \<and>
      (break \<or> index (new_ParseAST ''a b'' ''t.html'' 0 ab_tokens Flags_None [] 0) < index st'))"
  using parseChain_terminates
    [of "new_ParseAST ''a b'' ''t.html'' 0 ab_tokens Flags_None [] 0" 5 "[]"]
  by (simp add: new_ParseAST_def ab_tokens_def)

section \<open>The check for interpolation in an expression\<close>

lemma checkNoInterpolation_loop_start:
  "\<not> startsWith inp start 0 \<Longrightarrow>
   checkNoInterpolation_loop inp start end idxs (- 1) endIndex = (- 1, endIndex)"
  by (induction idxs) simp_all

text \<open>
  Claim C5.  \<open>_checkNoInterpolation\<close> looks for the start delimiter with
  \<open>input.startsWith(start)\<close>, which tests position 0 whatever \<open>charIndex\<close> is: on an input that
  does not begin with the start delimiter it reports nothing, wherever the delimiters stand in
  the input.
\<close>

theorem checkNoInterpolation_only_at_start:
  assumes "\<not> startsWith inp (interp_start config) 0"
  shows "checkNoInterpolation inp loc config p = p"
  using assms by (simp add: checkNoInterpolation_def checkNoInterpolation_loop_start)

theorem checkNoInterpolation_only_at_start_witness:
  "\<not> startsWith ''a {{b}}'' (interp_start DEFAULT_INTERPOLATION_CONFIG) 0 \<and>
   checkNoInterpolation ''a {{b}}'' ''t.html'' DEFAULT_INTERPOLATION_CONFIG (new_Parser (\<lambda>s. []))
     = new_Parser (\<lambda>s. [])"
  using checkNoInterpolation_only_at_start
    [of "''a {{b}}''" DEFAULT_INTERPOLATION_CONFIG "''t.html''" "new_Parser (\<lambda>s. [])"]
  by (simp add: startsWith_def DEFAULT_INTERPOLATION_CONFIG_def)

section \<open>The template bindings of \<open>*ngFor\<close>\<close>








section \<open>The error array is only appended to\<close>

text \<open>
  \<open>prefix_errors E st\<close> is the state \<open>st\<close> with the errors \<open>E\<close> in front of its own.  A production
  is \<open>framed\<close> when running it with more errors in front gives the same result and the same state
  with these errors in front: it reads nothing from the error array and only appends to it.
\<close>

definition prefix_errors :: "ParserError list \<Rightarrow> ParseAST \<Rightarrow> ParseAST" where
  "prefix_errors E st = st\<lparr>errors := E @ errors st\<rparr>"

definition framed :: "'a production \<Rightarrow> bool" where
  "framed p \<longleftrightarrow>
     (\<forall>E st. p (prefix_errors E st) = map_option (apsnd (prefix_errors E)) (p st))"

lemma framedD:
  "framed p \<Longrightarrow> p (prefix_errors E st) = map_option (apsnd (prefix_errors E)) (p st)"
  by (simp add: framed_def)

lemma prefix_errors_fields [simp]:
  "tokens (prefix_errors E st) = tokens st"
  "index (prefix_errors E st) = index st"
  "input (prefix_errors E st) = input st"
  "location (prefix_errors E st) = location st"
  "absoluteOffset (prefix_errors E st) = absoluteOffset st"
  "parseFlags (prefix_errors E st) = parseFlags st"
  "contextFlags (prefix_errors E st) = contextFlags st"
  "rparensExpected (prefix_errors E st) = rparensExpected st"
  "rbracketsExpected (prefix_errors E st) = rbracketsExpected st"
  "rbracesExpected (prefix_errors E st) = rbracesExpected st"
  "sourceSpanCache (prefix_errors E st) = sourceSpanCache st"
  "offset (prefix_errors E st) = offset st"
  "errors (prefix_errors E st) = E @ errors st"
  by (simp_all add: prefix_errors_def)

lemma prefix_errors_updates [simp]:
  "(prefix_errors E st)\<lparr>rparensExpected := a\<rparr> = prefix_errors E (st\<lparr>rparensExpected := a\<rparr>)"
  "(prefix_errors E st)\<lparr>rbracketsExpected := a\<rparr> = prefix_errors E (st\<lparr>rbracketsExpected := a\<rparr>)"
  "(prefix_errors E st)\<lparr>rbracesExpected := a\<rparr> = prefix_errors E (st\<lparr>rbracesExpected := a\<rparr>)"
  "(prefix_errors E st)\<lparr>contextFlags := c\<rparr> = prefix_errors E (st\<lparr>contextFlags := c\<rparr>)"
  "(prefix_errors E st)\<lparr>index := i\<rparr> = prefix_errors E (st\<lparr>index := i\<rparr>)"
  "(prefix_errors E st)\<lparr>sourceSpanCache := m\<rparr> = prefix_errors E (st\<lparr>sourceSpanCache := m\<rparr>)"
  by (simp_all add: prefix_errors_def)

lemma prefix_errors_observers [simp]:
  "peek (prefix_errors E st) k = peek st k"
  "next_tok (prefix_errors E st) = next_tok st"
  "atEOF (prefix_errors E st) = atEOF st"
  "currentEndIndex (prefix_errors E st) = currentEndIndex st"
  "inputIndex (prefix_errors E st) = inputIndex st"
  "currentAbsoluteOffset (prefix_errors E st) = currentAbsoluteOffset st"
  "span (prefix_errors E st) start art = span st start art"
  "locationText (prefix_errors E st) idx = locationText st idx"
  "prettyPrintToken (prefix_errors E st) t = prettyPrintToken st t"
  "atRecoveryPoint (prefix_errors E st) = atRecoveryPoint st"
  by (simp_all add: peek_def next_tok_def atEOF_def currentEndIndex_def inputIndex_def
      currentAbsoluteOffset_def span_def locationText_def prettyPrintToken_def
      atRecoveryPoint_def Let_def cong: option.case_cong if_cong)

lemma advance_prefix [simp]: "advance (prefix_errors E st) = prefix_errors E (advance st)"
  by (simp add: advance_def)

lemma pushError_prefix [simp]:
  "pushError msg loc (prefix_errors E st) = prefix_errors E (pushError msg loc st)"
  by (simp add: pushError_def prefix_errors_def)

lemma skip_prefix [simp]: "skip (prefix_errors E st) = prefix_errors E (skip st)"
proof (induction st rule: skip.induct)
  case (1 st)
  show ?case
  proof (cases "atRecoveryPoint st")
    case True
    then show ?thesis by (simp add: skip.simps)
  next
    case False
    let ?st1 = "advance (if isError (next_tok st)
                 then pushError (tokToString (next_tok st)) (locationText st None) st else st)"
    have "skip (prefix_errors E st) = skip (prefix_errors E ?st1)"
      using False by (subst skip.simps) simp
    also have "\<dots> = prefix_errors E (skip ?st1)"
      using 1[OF False] .
    also have "skip ?st1 = skip st"
      using False by (subst (2) skip.simps) simp
    finally show ?thesis .
  qed
qed

lemma error_prefix [simp]:
  "error msg idx (prefix_errors E st) = prefix_errors E (error msg idx st)"
  by (simp add: error_def)

lemma enterContext_prefix [simp]:
  "enterContext c (prefix_errors E st) = prefix_errors E (enterContext c st)"
  by (simp add: enterContext_def)

lemma leaveContext_prefix [simp]:
  "leaveContext c (prefix_errors E st) = prefix_errors E (leaveContext c st)"
  by (simp add: leaveContext_def)

lemma reportErrorForPrivateIdentifier_prefix [simp]:
  "reportErrorForPrivateIdentifier t x (prefix_errors E st) =
   prefix_errors E (reportErrorForPrivateIdentifier t x st)"
  by (simp add: reportErrorForPrivateIdentifier_def Let_def)

lemma consumeOptionalCharacter_prefix [simp]:
  "consumeOptionalCharacter code (prefix_errors E st) =
   apsnd (prefix_errors E) (consumeOptionalCharacter code st)"
  by (simp add: consumeOptionalCharacter_def)

lemma consumeOptionalOperator_prefix [simp]:
  "consumeOptionalOperator op (prefix_errors E st) =
   apsnd (prefix_errors E) (consumeOptionalOperator op st)"
  by (simp add: consumeOptionalOperator_def)

lemma consumeOptionalAssignment_prefix [simp]:
  "consumeOptionalAssignment (prefix_errors E st) =
   apsnd (prefix_errors E) (consumeOptionalAssignment st)"
  by (simp add: consumeOptionalAssignment_def)

lemma expectCharacter_prefix [simp]:
  "expectCharacter code (prefix_errors E st) = prefix_errors E (expectCharacter code st)"
  by (simp add: expectCharacter_def consumeOptionalCharacter_def)

lemma expectIdentifierOrKeyword_prefix [simp]:
  "expectIdentifierOrKeyword (prefix_errors E st) =
   apsnd (prefix_errors E) (expectIdentifierOrKeyword st)"
  by (simp add: expectIdentifierOrKeyword_def Let_def)

lemma expectIdentifierOrKeywordOrString_prefix [simp]:
  "expectIdentifierOrKeywordOrString (prefix_errors E st) =
   apsnd (prefix_errors E) (expectIdentifierOrKeywordOrString st)"
  by (simp add: expectIdentifierOrKeywordOrString_def Let_def)

lemma sourceSpan_prefix [simp]:
  "sourceSpan start art (prefix_errors E st) = apsnd (prefix_errors E) (sourceSpan start art st)"
  by (simp add: sourceSpan_def Let_def split: option.split)

lemma newNode_prefix [simp]:
  "newNode mk start (prefix_errors E st) = apsnd (prefix_errors E) (newNode mk start st)"
  by (simp add: newNode_def split: prod.split)

lemma consumeSemicolons_prefix [simp]:
  "consumeSemicolons (prefix_errors E st) = prefix_errors E (consumeSemicolons st)"
proof (induction st rule: consumeSemicolons.induct)
  case (1 st)
  show ?case
  proof (cases "isCharacter (next_tok st) SEMICOLON")
    case True
    have "consumeSemicolons (prefix_errors E st) = consumeSemicolons (prefix_errors E (advance st))"
      using True by (subst consumeSemicolons.simps) (simp add: consumeOptionalCharacter_def)
    also have "\<dots> = prefix_errors E (consumeSemicolons (advance st))"
      using 1 True by (simp add: consumeOptionalCharacter_def)
    also have "consumeSemicolons (advance st) = consumeSemicolons st"
      using True by (subst (2) consumeSemicolons.simps) (simp add: consumeOptionalCharacter_def)
    finally show ?thesis .
  next
    case False
    then show ?thesis
      by (simp add: consumeSemicolons.simps consumeOptionalCharacter_def)
  qed
qed

text \<open>Rules that move \<open>prefix_errors\<close> from the state a production starts in to its result.\<close>

lemma if_prefix_errors:
  "(if c then prefix_errors E a else prefix_errors E b) = prefix_errors E (if c then a else b)"
  by simp

lemma if_apsnd:
  "(if c then apsnd f a else apsnd f b) = apsnd f (if c then a else b)"
  by simp

lemma case_prod_app: "(case p of (a, b) \<Rightarrow> f a b) z = (case p of (a, b) \<Rightarrow> f a b z)"
  by (cases p) simp

lemma case_case_prod:
  "(case (case p of (a, b) \<Rightarrow> g a b) of (c, d) \<Rightarrow> h c d) =
   (case p of (a, b) \<Rightarrow> (case g a b of (c, d) \<Rightarrow> h c d))"
  by (cases p) simp

lemma case_prod_case_option:
  "(case (case x of None \<Rightarrow> p | Some y \<Rightarrow> q y) of (c, d) \<Rightarrow> h c d) =
   (case x of None \<Rightarrow> (case p of (c, d) \<Rightarrow> h c d)
    | Some y \<Rightarrow> (case q y of (c, d) \<Rightarrow> h c d))"
  by (cases x) simp_all

lemma case_prod_if:
  "(case (if b then p else q) of (c, d) \<Rightarrow> h c d) =
   (if b then (case p of (c, d) \<Rightarrow> h c d) else (case q of (c, d) \<Rightarrow> h c d))"
  by simp

lemma case_prod_apsnd: "(case apsnd f p of (a, b) \<Rightarrow> h a b) = (case p of (a, b) \<Rightarrow> h a (f b))"
  by (cases p) simp

lemma fst_apsnd' [simp]: "fst (apsnd f p) = fst p"
  by (cases p) simp

lemma bind_map_option': "map_option g x \<bind> f = x \<bind> (\<lambda>v. f (g v))"
  by (cases x) simp_all

lemma map_option_bind': "map_option g (x \<bind> f) = x \<bind> (\<lambda>v. map_option g (f v))"
  by (cases x) simp_all

lemma bind_if:
  fixes a b :: "'a option"
  shows "(if c then a else b) \<bind> g = (if c then a \<bind> g else b \<bind> g)"
  by simp

lemma bind_case_prod:
  fixes f :: "'a \<Rightarrow> 'b \<Rightarrow> 'c option"
  shows "(case p of (x, y) \<Rightarrow> f x y) \<bind> g = (case p of (x, y) \<Rightarrow> f x y \<bind> g)"
  by (cases p) simp

lemma bind_case_bool:
  fixes a b :: "'a option"
  shows "(case c of True \<Rightarrow> a | False \<Rightarrow> b) \<bind> g =
         (case c of True \<Rightarrow> a \<bind> g | False \<Rightarrow> b \<bind> g)"
  by (cases c) simp_all

lemma bind_case_option:
  fixes a :: "'a option" and f :: "'b \<Rightarrow> 'a option"
  shows "(case x of None \<Rightarrow> a | Some y \<Rightarrow> f y) \<bind> g =
         (case x of None \<Rightarrow> a \<bind> g | Some y \<Rightarrow> f y \<bind> g)"
  by (cases x) simp_all

lemmas frame_simps =
  if_prefix_errors if_apsnd case_prod_app case_case_prod case_prod_case_option case_prod_if
  case_prod_apsnd
  bind_map_option' map_option_bind' Let_def
  if_distrib[of "map_option f"] bool.case_distrib[of "map_option f"]
  option.case_distrib[of "map_option f"] prod.case_distrib[of "map_option f"]
  bind_if bind_case_prod bind_case_bool bind_case_option
  for f

lemmas frame_congs = if_cong bool.case_cong option.case_cong prod.case_cong

lemma binaryLoop_framed:
  assumes "framed operand"
  shows "framed (binaryLoop k operand ops start result)"
proof (induction k arbitrary: result)
  case 0
  show ?case by (simp add: framed_def)
next
  case (Suc k)
  show ?case
    unfolding framed_def
    by (simp add: frame_simps framedD[OF assms] framedD[OF Suc] cong: frame_congs)
qed

lemma parseAccessMember_framed:
  assumes "framed pc"
  shows "framed (parseAccessMember pc readReceiver start isSafe)"
  unfolding framed_def parseAccessMember_def
  by (simp add: frame_simps framedD[OF assms] cong: frame_congs)

lemma parseCallArguments_loop_framed:
  assumes "framed pp"
  shows "framed (parseCallArguments_loop k pp positionals)"
proof (induction k arbitrary: positionals)
  case 0
  show ?case by (simp add: framed_def)
next
  case (Suc k)
  show ?case
    unfolding framed_def
    by (simp add: frame_simps framedD[OF Suc] framedD[OF assms] cong: frame_congs)
qed

lemma parseCall_framed:
  assumes "framed pp"
  shows "framed (parseCall k pp receiver start isSafe)"
  unfolding framed_def parseCall_def parseCallArguments_def
  by (simp add: frame_simps framedD[OF parseCallArguments_loop_framed[OF assms]] cong: frame_congs)

lemma parseKeyedReadOrWrite_framed:
  assumes "framed pp" "framed pc"
  shows "framed (parseKeyedReadOrWrite pp pc receiver start isSafe)"
  unfolding framed_def parseKeyedReadOrWrite_def parseKeyedReadOrWrite_body_def
  by (simp add: frame_simps framedD[OF assms(1)] framedD[OF assms(2)] cong: frame_congs)

lemma parseExpressionList_loop_framed:
  assumes "framed pp"
  shows "framed (parseExpressionList_loop k pp terminator result)"
proof (induction k arbitrary: result)
  case 0
  show ?case by (simp add: framed_def)
next
  case (Suc k)
  show ?case
    unfolding framed_def
    by (simp add: frame_simps framedD[OF Suc] framedD[OF assms] cong: frame_congs)
qed

lemma parseLiteralMap_loop_framed:
  assumes "framed pp"
  shows "framed (parseLiteralMap_loop k pp keys vals)"
proof (induction k arbitrary: keys vals)
  case 0
  show ?case by (simp add: framed_def)
next
  case (Suc k)
  show ?case
    unfolding framed_def
    by (simp add: frame_simps framedD[OF Suc] framedD[OF assms] cong: frame_congs)
qed

lemma parseLiteralMap_framed:
  assumes "framed pp"
  shows "framed (parseLiteralMap k pp)"
  unfolding framed_def parseLiteralMap_def
  by (simp add: frame_simps framedD[OF parseLiteralMap_loop_framed[OF assms]] cong: frame_congs)

lemma parsePrimary_framed:
  assumes "framed pp" "framed pc"
  shows "framed (parsePrimary k pp pc)"
  unfolding framed_def parsePrimary_def parseExpressionList_def
  by (simp add: frame_simps framedD[OF assms(1)] framedD[OF parseExpressionList_loop_framed[OF assms(1)]] framedD[OF parseLiteralMap_framed[OF assms(1)]] framedD[OF parseAccessMember_framed[OF assms(2)]] cong: frame_congs)

lemma parseCallChain_loop_framed:
  assumes "framed pp" "framed pc"
  shows "framed (parseCallChain_loop k pp pc start result)"
proof (induction k arbitrary: result)
  case 0
  show ?case by (simp add: framed_def)
next
  case (Suc k)
  show ?case
    unfolding framed_def
    by (simp add: frame_simps framedD[OF Suc] framedD[OF parseAccessMember_framed[OF assms(2)]] framedD[OF parseCall_framed[OF assms(1)]] framedD[OF parseKeyedReadOrWrite_framed[OF assms]] cong: frame_congs)
qed

lemma parseCallChain_framed:
  assumes "framed pp" "framed pc"
  shows "framed (parseCallChain k pp pc)"
  unfolding framed_def parseCallChain_def
  by (simp add: frame_simps framedD[OF parsePrimary_framed[OF assms]] framedD[OF parseCallChain_loop_framed[OF assms]] cong: frame_congs)

lemma parsePrefix_framed:
  assumes "framed pp" "framed pc"
  shows "framed (parsePrefix k pp pc)"
proof (induction k)
  case 0
  show ?case by (simp add: framed_def)
next
  case (Suc k)
  show ?case
    unfolding framed_def
    by (simp add: frame_simps framedD[OF Suc] framedD[OF parseCallChain_framed[OF assms]]
        cong: frame_congs)
qed

lemma binary_level_framed:
  assumes "framed operand"
  shows "framed (\<lambda>st. do {
           (result, st1) \<leftarrow> operand st;
           binaryLoop k operand ops (inputIndex st) result st1 })"
  unfolding framed_def
  by (simp add: frame_simps framedD[OF assms] framedD[OF binaryLoop_framed[OF assms]]
      cong: frame_congs)

lemma parseMultiplicative_framed:
  assumes "framed pp" "framed pc"
  shows "framed (parseMultiplicative k pp pc)"
  using binary_level_framed[OF parsePrefix_framed[OF assms]]
  by (simp add: parseMultiplicative_def[abs_def] Let_def)

lemma parseAdditive_framed:
  assumes "framed pp" "framed pc"
  shows "framed (parseAdditive k pp pc)"
  using binary_level_framed[OF parseMultiplicative_framed[OF assms]]
  by (simp add: parseAdditive_def[abs_def] Let_def)

lemma parseRelational_framed:
  assumes "framed pp" "framed pc"
  shows "framed (parseRelational k pp pc)"
  using binary_level_framed[OF parseAdditive_framed[OF assms]]
  by (simp add: parseRelational_def[abs_def] Let_def)

lemma parseEquality_framed:
  assumes "framed pp" "framed pc"
  shows "framed (parseEquality k pp pc)"
  using binary_level_framed[OF parseRelational_framed[OF assms]]
  by (simp add: parseEquality_def[abs_def] Let_def)

lemma parseNullishCoalescing_framed:
  assumes "framed pp" "framed pc"
  shows "framed (parseNullishCoalescing k pp pc)"
  using binary_level_framed[OF parseEquality_framed[OF assms]]
  by (simp add: parseNullishCoalescing_def[abs_def] Let_def)

lemma parseLogicalAnd_framed:
  assumes "framed pp" "framed pc"
  shows "framed (parseLogicalAnd k pp pc)"
  using binary_level_framed[OF parseNullishCoalescing_framed[OF assms]]
  by (simp add: parseLogicalAnd_def[abs_def] Let_def)

lemma parseLogicalOr_framed:
  assumes "framed pp" "framed pc"
  shows "framed (parseLogicalOr k pp pc)"
  using binary_level_framed[OF parseLogicalAnd_framed[OF assms]]
  by (simp add: parseLogicalOr_def[abs_def] Let_def)

lemma parseConditional_body_framed:
  assumes "framed pp" "framed pc"
  shows "framed (parseConditional_body k pp pc)"
  unfolding framed_def parseConditional_body_def
  by (simp add: frame_simps framedD[OF assms(1)] framedD[OF parseLogicalOr_framed[OF assms]] cong: frame_congs)

lemma parseExpression_framed:
  assumes "framed pp" "framed pc"
  shows "framed (parseExpression k pp pc)"
  using parseConditional_body_framed[OF assms] by (simp add: parseExpression_def[abs_def])

lemma parsePipe_args_framed:
  assumes "framed pp" "framed pc"
  shows "framed (parsePipe_args k pp pc args)"
proof (induction k arbitrary: args)
  case 0
  show ?case by (simp add: framed_def)
next
  case (Suc k)
  show ?case
    unfolding framed_def
    by (simp add: frame_simps framedD[OF Suc] framedD[OF parseExpression_framed[OF assms]] cong: frame_congs)
qed

lemma parsePipe_loop_framed:
  assumes "framed pp" "framed pc"
  shows "framed (parsePipe_loop k pp pc start result)"
proof (induction k arbitrary: result)
  case 0
  show ?case by (simp add: framed_def)
next
  case (Suc k)
  show ?case
    unfolding framed_def
    by (simp add: frame_simps framedD[OF Suc] framedD[OF parsePipe_args_framed[OF assms]] cong: frame_congs)
qed

lemma parsePipe_body_framed:
  assumes "framed pp" "framed pc"
  shows "framed (parsePipe_body k pp pc)"
  unfolding framed_def parsePipe_body_def
  by (simp add: frame_simps framedD[OF parseExpression_framed[OF assms]] framedD[OF parsePipe_loop_framed[OF assms]] cong: frame_congs)

lemma parsePipe_parseConditional_framed:
  "framed (parsePipe n) \<and> framed (parseConditional n)"
proof (induction n)
  case 0
  show ?case by (simp add: framed_def)
next
  case (Suc n)
  then have pp: "framed (\<lambda>s. parsePipe n s)" and pc: "framed (\<lambda>s. parseConditional n s)"
    by simp_all
  show ?case
    using parsePipe_body_framed[OF pp pc, of n] parseConditional_body_framed[OF pp pc, of n]
    by (simp add: framed_def)
qed

lemma parseChain_body_framed:
  assumes "framed pp"
  shows "framed (parseChain_body pp exprs)"
  unfolding framed_def parseChain_body_def
  by (simp add: frame_simps framedD[OF assms] cong: frame_congs)

lemma parseChain_loop_framed:
  assumes "framed pp"
  shows "framed (parseChain_loop k pp exprs)"
proof (induction k arbitrary: exprs)
  case 0
  show ?case by (simp add: framed_def)
next
  case (Suc k)
  show ?case
    unfolding framed_def
    by (simp add: frame_simps framedD[OF Suc] framedD[OF parseChain_body_framed[OF assms]]
        cong: frame_congs)
qed

lemma parseChain_framed: "framed (parseChain n)"
  unfolding framed_def parseChain_def
  by (simp add: frame_simps
      framedD[OF parseChain_loop_framed[OF parsePipe_parseConditional_framed[THEN conjunct1]]]
      cong: frame_congs)

section \<open>Parsing twice with one parser\<close>

lemma new_ParseAST_prefix:
  "new_ParseAST inp loc off toks flags E 0 =
   prefix_errors E (new_ParseAST inp loc off toks flags [] 0)"
  by (simp add: new_ParseAST_def prefix_errors_def)

lemma parseChain_appends:
  "\<exists>ast st'. \<forall>E.
     parseChain (length toks + 3) (new_ParseAST inp loc off toks flags E 0) =
     Some (ast, prefix_errors E st')"
proof -
  let ?st = "new_ParseAST inp loc off toks flags [] 0"
  have "returns (parseChain (length toks + 3) ?st)"
    by (rule parseChain_returns) (simp add: rem_tokens_def new_ParseAST_def)
  then obtain ast st' where "parseChain (length toks + 3) ?st = Some (ast, st')"
    by (auto simp: returns_def)
  then have "parseChain (length toks + 3) (new_ParseAST inp loc off toks flags E 0) =
             Some (ast, prefix_errors E st')" for E
    by (simp add: new_ParseAST_prefix[of _ _ _ _ _ E] framedD[OF parseChain_framed])
  then show ?thesis by blast
qed

lemma checkNoInterpolation_appends:
  "\<exists>I. \<forall>p. checkNoInterpolation inp loc config p = p\<lparr>parser_errors := parser_errors p @ I\<rparr>"
proof (cases "checkNoInterpolation_loop inp (interp_start config) (interp_end config)
                (forEachUnquotedChar inp 0) (- 1) (- 1)")
  case (Pair startIndex endIndex)
  show ?thesis
  proof (cases "startIndex > - 1 \<and> endIndex > - 1")
    case True
    with Pair have "\<forall>p. checkNoInterpolation inp loc config p =
        p\<lparr>parser_errors := parser_errors p @
          [\<lparr>message = ''Got interpolation ('' @ interp_start config @ interp_end config @
                        '') where expression was expected'',
            err_input = inp, errLocation = ''at column '' @ numToString startIndex @ '' in'',
            ctxLocation = Some loc\<rparr>]\<rparr>"
      by (simp add: checkNoInterpolation_def reportError_def)
    then show ?thesis by blast
  next
    case False
    with Pair have "\<forall>p. checkNoInterpolation inp loc config p =
        p\<lparr>parser_errors := parser_errors p @ []\<rparr>"
      by (auto simp: checkNoInterpolation_def)
    then show ?thesis by blast
  qed
qed

lemma parseBindingAst_appends:
  "\<exists>ast D. \<forall>E. parseBindingAst (p\<lparr>parser_errors := E\<rparr>) inp loc off config =
     Some (ast, p\<lparr>parser_errors := E @ D\<rparr>)"
proof -
  obtain I where I: "\<And>q. checkNoInterpolation inp loc config q =
      q\<lparr>parser_errors := parser_errors q @ I\<rparr>"
    using checkNoInterpolation_appends by blast
  obtain ast st' where chain: "\<And>E.
      parseChain (length (tokenize p (stripComments inp)) + 3)
        (new_ParseAST inp loc off (tokenize p (stripComments inp)) Flags_None E 0) =
      Some (ast, prefix_errors E st')"
    using parseChain_appends by blast
  have "parseBindingAst (p\<lparr>parser_errors := E\<rparr>) inp loc off config =
        Some (ast, p\<lparr>parser_errors := E @ (I @ errors st')\<rparr>)" for E
    by (simp add: parseBindingAst_def I chain)
  then show ?thesis by blast
qed

lemma parseAction_appends:
  "\<exists>ast D. \<forall>E. parseAction (p\<lparr>parser_errors := E\<rparr>) inp isAssignmentEvent loc off config =
     Some (ast, p\<lparr>parser_errors := E @ D\<rparr>)"
proof -
  obtain I where I: "\<And>q. checkNoInterpolation inp loc config q =
      q\<lparr>parser_errors := parser_errors q @ I\<rparr>"
    using checkNoInterpolation_appends by blast
  obtain ast st' where chain: "\<And>E.
      parseChain (length (tokenize p (stripComments inp)) + 3)
        (new_ParseAST inp loc off (tokenize p (stripComments inp))
           (if isAssignmentEvent then Flags_Action OR Flags_AssignmentEvent else Flags_Action)
           E 0) =
      Some (ast, prefix_errors E st')"
    using parseChain_appends by blast
  have "parseAction (p\<lparr>parser_errors := E\<rparr>) inp isAssignmentEvent loc off config =
        Some (ASTWithSource ast (Some inp) loc off, p\<lparr>parser_errors := E @ (I @ errors st')\<rparr>)"
    for E
    by (simp add: parseAction_def I chain Let_def)
  then show ?thesis by blast
qed

lemma parseBinding_appends:
  "\<exists>ast D. \<forall>E. parseBinding (p\<lparr>parser_errors := E\<rparr>) inp loc off config =
     Some (ast, p\<lparr>parser_errors := E @ D\<rparr>)"
proof -
  obtain ast D where "\<And>E. parseBindingAst (p\<lparr>parser_errors := E\<rparr>) inp loc off config =
      Some (ast, p\<lparr>parser_errors := E @ D\<rparr>)"
    using parseBindingAst_appends by blast
  then have "parseBinding (p\<lparr>parser_errors := E\<rparr>) inp loc off config =
      Some (ASTWithSource ast (Some inp) loc off, p\<lparr>parser_errors := E @ D\<rparr>)" for E
    by (simp add: parseBinding_def)
  then show ?thesis by blast
qed

lemma parseSimpleBinding_appends:
  "\<exists>ast D. \<forall>E. parseSimpleBinding (p\<lparr>parser_errors := E\<rparr>) inp loc off config =
     Some (ast, p\<lparr>parser_errors := E @ D\<rparr>)"
proof -
  obtain ast D where ast: "\<And>E. parseBindingAst (p\<lparr>parser_errors := E\<rparr>) inp loc off config =
      Some (ast, p\<lparr>parser_errors := E @ D\<rparr>)"
    using parseBindingAst_appends by blast
  let ?H = "if length (checkSimpleExpression ast) > 0
            then [\<lparr>message = ''Host binding expression cannot contain '' @
                              join (checkSimpleExpression ast) '' '',
                    err_input = inp, errLocation = loc, ctxLocation = None\<rparr>]
            else []"
  have "parseSimpleBinding (p\<lparr>parser_errors := E\<rparr>) inp loc off config =
      Some (ASTWithSource ast (Some inp) loc off, p\<lparr>parser_errors := E @ (D @ ?H)\<rparr>)" for E
    by (simp add: parseSimpleBinding_def ast reportError_def Let_def)
  then show ?thesis by blast
qed

lemma twice:
  assumes "\<exists>ast D. \<forall>E. f (p\<lparr>parser_errors := E\<rparr>) = Some (ast, p\<lparr>parser_errors := E @ D\<rparr>)"
  shows "\<exists>ast D. f p = Some (ast, p\<lparr>parser_errors := parser_errors p @ D\<rparr>) \<and>
           f (p\<lparr>parser_errors := parser_errors p @ D\<rparr>) =
           Some (ast, p\<lparr>parser_errors := parser_errors p @ D @ D\<rparr>)"
proof -
  from assms obtain ast D
    where f: "\<And>E. f (p\<lparr>parser_errors := E\<rparr>) = Some (ast, p\<lparr>parser_errors := E @ D\<rparr>)"
    by blast
  from f[of "parser_errors p"] f[of "parser_errors p @ D"] show ?thesis
    by auto
qed

definition ab_error :: ParserError where
  "ab_error =
     \<lparr>message = ''Unexpected token '' @ [CHR 0x27] @ ''b'' @ [CHR 0x27], err_input = ''a b'',
      errLocation = ''at column 3 in'', ctxLocation = Some ''t.html''\<rparr>"

definition ab_ast :: AST where
  "ab_ast =
     ASTWithSource
       (PropertyRead \<lparr>span_start = 0, span_end = 1\<rparr> \<lparr>abs_start = 0, abs_end = 1\<rparr>
          \<lparr>abs_start = 0, abs_end = 1\<rparr>
          (ImplicitReceiver \<lparr>span_start = 0, span_end = 0\<rparr> \<lparr>abs_start = 0, abs_end = 0\<rparr>)
          ''a'')
       (Some ''a b'') ''t.html'' 0"

text \<open>
  Claim C3, as the spec has it, fails.  The error array is a field of the \<open>Parser\<close>, handed to
  every \<open>_ParseAST\<close> and every result, and never emptied.  With a lexer that splits \<open>a b\<close> into
  the identifiers \<open>a\<close> and \<open>b\<close>, the first \<open>parseBinding\<close> of \<open>a b\<close> on a new parser answers with
  the error list \<open>[Unexpected token 'b']\<close>, and the second one, on the same parser and the same
  input, with the same tree and this error twice.
\<close>

theorem parse_twice_counterexample:
  "map_option (\<lambda>(ast, p). (ast, parser_errors p))
     (parseBinding (new_Parser demo_lexer) ''a b'' ''t.html'' 0 DEFAULT_INTERPOLATION_CONFIG) =
   Some (ab_ast, [ab_error]) \<and>
   map_option (\<lambda>(ast, p). (ast, parser_errors p))
     (parseBinding (new_Parser demo_lexer) ''a b'' ''t.html'' 0 DEFAULT_INTERPOLATION_CONFIG \<bind>
      (\<lambda>(ast1, p1). parseBinding p1 ''a b'' ''t.html'' 0 DEFAULT_INTERPOLATION_CONFIG)) =
   Some (ab_ast, [ab_error, ab_error])"
  by code_simp

text \<open>
  Claim C3, amended.  Each of \<open>parseAction\<close>, \<open>parseBinding\<close> and \<open>parseSimpleBinding\<close> returns,
  on every parser and every input, a tree \<open>ast\<close> and the parser with a list \<open>D\<close> of errors
  appended to its error array; called again with the same arguments on the parser it answered
  with, it returns the same tree \<open>ast\<close> and appends the same list \<open>D\<close> once more.  So the trees
  of the two calls are equal, and the error lists are equal only when the parse reports no
  error: the error list is not private to a parse.
\<close>

theorem parse_twice_appends:
  "(\<exists>ast D.
      parseAction p inp isAssignmentEvent loc off config =
        Some (ast, p\<lparr>parser_errors := parser_errors p @ D\<rparr>) \<and>
      parseAction (p\<lparr>parser_errors := parser_errors p @ D\<rparr>) inp isAssignmentEvent loc off
        config =
        Some (ast, p\<lparr>parser_errors := parser_errors p @ D @ D\<rparr>)) \<and>
   (\<exists>ast D.
      parseBinding p inp loc off config =
        Some (ast, p\<lparr>parser_errors := parser_errors p @ D\<rparr>) \<and>
      parseBinding (p\<lparr>parser_errors := parser_errors p @ D\<rparr>) inp loc off config =
        Some (ast, p\<lparr>parser_errors := parser_errors p @ D @ D\<rparr>)) \<and>
   (\<exists>ast D.
      parseSimpleBinding p inp loc off config =
        Some (ast, p\<lparr>parser_errors := parser_errors p @ D\<rparr>) \<and>
      parseSimpleBinding (p\<lparr>parser_errors := parser_errors p @ D\<rparr>) inp loc off config =
        Some (ast, p\<lparr>parser_errors := parser_errors p @ D @ D\<rparr>))"
  using twice[OF parseAction_appends, of p inp isAssignmentEvent loc off config]
    twice[OF parseBinding_appends, of p inp loc off config]
    twice[OF parseSimpleBinding_appends, of p inp loc off config]
  by blast

section \<open>The spans of the nodes the parser builds\<close>

text \<open>\<open>spans_ok a\<close>: the relative span of every node of the tree \<open>a\<close> has \<open>start \<le> end\<close>.\<close>

definition span_ok :: "ParseSpan \<Rightarrow> bool" where
  "span_ok sp \<longleftrightarrow> span_start sp \<le> span_end sp"

fun spans_ok :: "AST \<Rightarrow> bool"
  and spans_ok_list :: "AST list \<Rightarrow> bool" where
  "spans_ok (EmptyExpr sp ss) = span_ok sp"
| "spans_ok (ImplicitReceiver sp ss) = span_ok sp"
| "spans_ok (ThisReceiver sp ss) = span_ok sp"
| "spans_ok (Chain sp ss exprs) = (span_ok sp \<and> spans_ok_list exprs)"
| "spans_ok (Conditional sp ss c y n) = (span_ok sp \<and> spans_ok c \<and> spans_ok y \<and> spans_ok n)"
| "spans_ok (PropertyRead sp ss ns receiver name) = (span_ok sp \<and> spans_ok receiver)"
| "spans_ok (PropertyWrite sp ss ns receiver name v) =
     (span_ok sp \<and> spans_ok receiver \<and> spans_ok v)"
| "spans_ok (SafePropertyRead sp ss ns receiver name) = (span_ok sp \<and> spans_ok receiver)"
| "spans_ok (KeyedRead sp ss receiver k) = (span_ok sp \<and> spans_ok receiver \<and> spans_ok k)"
| "spans_ok (SafeKeyedRead sp ss receiver k) = (span_ok sp \<and> spans_ok receiver \<and> spans_ok k)"
| "spans_ok (KeyedWrite sp ss receiver k v) =
     (span_ok sp \<and> spans_ok receiver \<and> spans_ok k \<and> spans_ok v)"
| "spans_ok (BindingPipe sp ss exp name args ns) =
     (span_ok sp \<and> spans_ok exp \<and> spans_ok_list args)"
| "spans_ok (LiteralPrimitive sp ss v) = span_ok sp"
| "spans_ok (LiteralArray sp ss exprs) = (span_ok sp \<and> spans_ok_list exprs)"
| "spans_ok (LiteralMap sp ss keys vals) = (span_ok sp \<and> spans_ok_list vals)"
| "spans_ok (Interpolation sp ss strs exprs) = (span_ok sp \<and> spans_ok_list exprs)"
| "spans_ok (Binary sp ss op l r) = (span_ok sp \<and> spans_ok l \<and> spans_ok r)"
| "spans_ok (Unary sp ss op e) = (span_ok sp \<and> spans_ok e)"
| "spans_ok (PrefixNot sp ss e) = (span_ok sp \<and> spans_ok e)"
| "spans_ok (NonNullAssert sp ss e) = (span_ok sp \<and> spans_ok e)"
| "spans_ok (Call sp ss receiver args asp) =
     (span_ok sp \<and> spans_ok receiver \<and> spans_ok_list args)"
| "spans_ok (SafeCall sp ss receiver args asp) =
     (span_ok sp \<and> spans_ok receiver \<and> spans_ok_list args)"
| "spans_ok (ASTWithSource ast src loc off) =
     (span_ok (ast_span (ASTWithSource ast src loc off)) \<and> spans_ok ast)"
| "spans_ok_list [] = True"
| "spans_ok_list (a # as) = (spans_ok a \<and> spans_ok_list as)"

lemma spans_ok_list_append [simp]:
  "spans_ok_list (xs @ ys) \<longleftrightarrow> spans_ok_list xs \<and> spans_ok_list ys"
  by (induction xs) simp_all

lemma spans_ok_list_nth: "spans_ok_list xs \<Longrightarrow> i < length xs \<Longrightarrow> spans_ok (xs ! i)"
  by (induction xs arbitrary: i) (auto simp: nth_Cons split: nat.splits)

lemma spans_ok_root: "spans_ok a \<Longrightarrow> span_ok (ast_span a)"
  by (cases a) simp_all

lemma span_ok_source [simp]: "span_ok (ast_span (ASTWithSource ast src loc off))"
  by (simp add: span_ok_def)

lemma span_ok_span [simp]: "span_ok (span st start art)"
  by (simp add: span_ok_def span_def Let_def split: option.split)

lemma fst_newNode:
  "fst (newNode mk start st) = mk (span st start None) (fst (sourceSpan start None st))"
  by (simp add: newNode_def case_prod_beta)

lemma newNode_result:
  "newNode mk start st = (r, st1) \<Longrightarrow> r = mk (span st start None) (fst (sourceSpan start None st))"
  by (auto simp: newNode_def case_prod_beta)

text \<open>A production \<open>yields Q\<close> when every result it returns satisfies \<open>Q\<close>.\<close>

definition yields :: "('a \<Rightarrow> bool) \<Rightarrow> 'a production \<Rightarrow> bool" where
  "yields Q p \<longleftrightarrow> (\<forall>s r s'. p s = Some (r, s') \<longrightarrow> Q r)"

lemma yieldsD: "yields Q p \<Longrightarrow> p s = Some (r, s') \<Longrightarrow> Q r"
  by (auto simp: yields_def)

lemma yieldsI: "(\<And>s r s'. p s = Some (r, s') \<Longrightarrow> Q r) \<Longrightarrow> yields Q p"
  by (auto simp: yields_def)

lemmas span_simps = bind_eq_Some_conv case_prod_beta Let_def fst_newNode

lemma binaryLoop_spans:
  assumes "yields spans_ok operand"
  shows "binaryLoop k operand ops start result st = Some (r, st') \<Longrightarrow> spans_ok result \<Longrightarrow>
         spans_ok r"
proof (induction k arbitrary: result st)
  case 0
  then show ?case by simp
next
  case (Suc k)
  show ?case
    using Suc.prems
    by (auto simp: span_simps dest!: newNode_result Suc.IH yieldsD[OF assms] split: adv_splits)
qed

lemma parseAccessMember_spans:
  assumes "yields spans_ok pc"
  shows "parseAccessMember pc readReceiver start isSafe st = Some (r, st') \<Longrightarrow> spans_ok readReceiver \<Longrightarrow> spans_ok r"
  by (auto simp: parseAccessMember_def span_simps
        dest!: newNode_result yieldsD[OF assms]
      split: adv_splits)

lemma parseCallArguments_loop_spans:
  assumes "yields spans_ok pp"
  shows "parseCallArguments_loop k pp positionals st = Some (r, st') \<Longrightarrow> spans_ok_list positionals \<Longrightarrow> spans_ok_list r"
proof (induction k arbitrary: positionals st)
  case 0
  then show ?case by simp
next
  case (Suc k)
  show ?case
    using Suc.prems
    by (auto simp:  span_simps
        dest!: newNode_result Suc.IH yieldsD[OF assms]
        split: adv_splits)
qed

lemma parseCall_spans:
  assumes "yields spans_ok pp"
  shows "parseCall k pp receiver start isSafe st = Some (r, st') \<Longrightarrow> spans_ok receiver \<Longrightarrow> spans_ok r"
  by (auto simp: parseCall_def parseCallArguments_def span_simps
        dest!: newNode_result parseCallArguments_loop_spans[OF assms]
      split: adv_splits)

lemma parseKeyedReadOrWrite_spans:
  assumes "yields spans_ok pp" "yields spans_ok pc"
  shows "parseKeyedReadOrWrite pp pc receiver start isSafe st = Some (r, st') \<Longrightarrow> spans_ok receiver \<Longrightarrow> spans_ok r"
  by (auto simp: parseKeyedReadOrWrite_def parseKeyedReadOrWrite_body_def span_simps
        dest!: newNode_result yieldsD[OF assms(1)] yieldsD[OF assms(2)]
      split: adv_splits)

lemma parseExpressionList_loop_spans:
  assumes "yields spans_ok pp"
  shows "parseExpressionList_loop k pp terminator result st = Some (r, st') \<Longrightarrow> spans_ok_list result \<Longrightarrow> spans_ok_list r"
proof (induction k arbitrary: result st)
  case 0
  then show ?case by simp
next
  case (Suc k)
  show ?case
    using Suc.prems
    by (auto simp:  span_simps
        dest!: newNode_result Suc.IH yieldsD[OF assms]
        split: adv_splits)
qed

lemma parseLiteralMap_loop_spans:
  assumes "yields spans_ok pp"
  shows "parseLiteralMap_loop k pp keys vals st = Some (r, st') \<Longrightarrow> spans_ok_list vals \<Longrightarrow> spans_ok_list (snd r)"
proof (induction k arbitrary: keys vals st)
  case 0
  then show ?case by simp
next
  case (Suc k)
  show ?case
    using Suc.prems
    by (auto simp:  span_simps
        dest!: newNode_result Suc.IH yieldsD[OF assms]
        split: adv_splits)
qed

lemma parseLiteralMap_spans:
  assumes "yields spans_ok pp"
  shows "parseLiteralMap k pp st = Some (r, st') \<Longrightarrow> spans_ok r"
  by (auto simp: parseLiteralMap_def span_simps
        dest!: newNode_result parseLiteralMap_loop_spans[OF assms]
      split: adv_splits)

lemma parsePrimary_spans:
  assumes "yields spans_ok pp" "yields spans_ok pc"
  shows "parsePrimary k pp pc st = Some (r, st') \<Longrightarrow> spans_ok r"
  by (auto simp: parsePrimary_def parseExpressionList_def span_simps
        dest!: newNode_result yieldsD[OF assms(1)] parseExpressionList_loop_spans[OF assms(1)] parseLiteralMap_spans[OF assms(1)] parseAccessMember_spans[OF assms(2)]
      split: adv_splits)

lemma parseCallChain_loop_spans:
  assumes "yields spans_ok pp" "yields spans_ok pc"
  shows "parseCallChain_loop k pp pc start result st = Some (r, st') \<Longrightarrow> spans_ok result \<Longrightarrow> spans_ok r"
proof (induction k arbitrary: result st)
  case 0
  then show ?case by simp
next
  case (Suc k)
  show ?case
    using Suc.prems
    by (auto simp:  span_simps
        dest!: newNode_result Suc.IH parseAccessMember_spans[OF assms(2)] parseCall_spans[OF assms(1)] parseKeyedReadOrWrite_spans[OF assms]
        split: adv_splits)
qed

lemma parseCallChain_spans:
  assumes "yields spans_ok pp" "yields spans_ok pc"
  shows "parseCallChain k pp pc st = Some (r, st') \<Longrightarrow> spans_ok r"
  by (auto simp: parseCallChain_def span_simps
        dest!: newNode_result parsePrimary_spans[OF assms] parseCallChain_loop_spans[OF assms]
      split: adv_splits)

lemma parsePrefix_spans:
  assumes "yields spans_ok pp" "yields spans_ok pc"
  shows "parsePrefix k pp pc st = Some (r, st') \<Longrightarrow> spans_ok r"
proof (induction k arbitrary: r st st')
  case 0
  then show ?case by simp
next
  case (Suc k)
  show ?case
    using Suc.prems
    by (auto simp: span_simps dest!: newNode_result Suc.IH parseCallChain_spans[OF assms] split: adv_splits)
qed

lemma binary_level_spans:
  assumes "yields spans_ok operand"
  shows "yields spans_ok (\<lambda>st. do {
           (result, st1) \<leftarrow> operand st;
           binaryLoop k operand ops (inputIndex st) result st1 })"
  by (rule yieldsI)
    (auto simp: span_simps dest!: newNode_result binaryLoop_spans[OF assms] yieldsD[OF assms])

lemma parsePrefix_yields:
  assumes "yields spans_ok pp" "yields spans_ok pc"
  shows "yields spans_ok (parsePrefix k pp pc)"
  using parsePrefix_spans[OF assms] by (auto simp: yields_def)

lemma parseMultiplicative_yields:
  assumes "yields spans_ok pp" "yields spans_ok pc"
  shows "yields spans_ok (parseMultiplicative k pp pc)"
  using binary_level_spans[OF parsePrefix_yields[OF assms]]
  by (simp add: parseMultiplicative_def[abs_def] Let_def)

lemma parseAdditive_yields:
  assumes "yields spans_ok pp" "yields spans_ok pc"
  shows "yields spans_ok (parseAdditive k pp pc)"
  using binary_level_spans[OF parseMultiplicative_yields[OF assms]]
  by (simp add: parseAdditive_def[abs_def] Let_def)

lemma parseRelational_yields:
  assumes "yields spans_ok pp" "yields spans_ok pc"
  shows "yields spans_ok (parseRelational k pp pc)"
  using binary_level_spans[OF parseAdditive_yields[OF assms]]
  by (simp add: parseRelational_def[abs_def] Let_def)

lemma parseEquality_yields:
  assumes "yields spans_ok pp" "yields spans_ok pc"
  shows "yields spans_ok (parseEquality k pp pc)"
  using binary_level_spans[OF parseRelational_yields[OF assms]]
  by (simp add: parseEquality_def[abs_def] Let_def)

lemma parseNullishCoalescing_yields:
  assumes "yields spans_ok pp" "yields spans_ok pc"
  shows "yields spans_ok (parseNullishCoalescing k pp pc)"
  using binary_level_spans[OF parseEquality_yields[OF assms]]
  by (simp add: parseNullishCoalescing_def[abs_def] Let_def)

lemma parseLogicalAnd_yields:
  assumes "yields spans_ok pp" "yields spans_ok pc"
  shows "yields spans_ok (parseLogicalAnd k pp pc)"
  using binary_level_spans[OF parseNullishCoalescing_yields[OF assms]]
  by (simp add: parseLogicalAnd_def[abs_def] Let_def)

lemma parseLogicalOr_yields:
  assumes "yields spans_ok pp" "yields spans_ok pc"
  shows "yields spans_ok (parseLogicalOr k pp pc)"
  using binary_level_spans[OF parseLogicalAnd_yields[OF assms]]
  by (simp add: parseLogicalOr_def[abs_def] Let_def)

lemma parseConditional_body_yields:
  assumes "yields spans_ok pp" "yields spans_ok pc"
  shows "yields spans_ok (parseConditional_body k pp pc)"
  by (rule yieldsI)
    (auto simp: parseConditional_body_def span_simps
      dest!: newNode_result yieldsD[OF assms(1)] yieldsD[OF parseLogicalOr_yields[OF assms]]
      split: adv_splits)

lemma parseExpression_spans:
  assumes "yields spans_ok pp" "yields spans_ok pc"
  shows "parseExpression k pp pc st = Some (r, st') \<Longrightarrow> spans_ok r"
  using parseConditional_body_yields[OF assms] by (auto simp: parseExpression_def yields_def)

lemma parsePipe_args_spans:
  assumes "yields spans_ok pp" "yields spans_ok pc"
  shows "parsePipe_args k pp pc args st = Some (r, st') \<Longrightarrow> spans_ok_list args \<Longrightarrow> spans_ok_list r"
proof (induction k arbitrary: args st)
  case 0
  then show ?case by simp
next
  case (Suc k)
  show ?case
    using Suc.prems
    by (auto simp:  span_simps
        dest!: newNode_result Suc.IH parseExpression_spans[OF assms]
        split: adv_splits)
qed

lemma parsePipe_loop_spans:
  assumes "yields spans_ok pp" "yields spans_ok pc"
  shows "parsePipe_loop k pp pc start result st = Some (r, st') \<Longrightarrow> spans_ok result \<Longrightarrow> spans_ok r"
proof (induction k arbitrary: result st)
  case 0
  then show ?case by simp
next
  case (Suc k)
  show ?case
    using Suc.prems
    by (auto simp:  span_simps
        dest!: newNode_result Suc.IH parsePipe_args_spans[OF assms]
        split: adv_splits)
qed

lemma parsePipe_body_yields:
  assumes "yields spans_ok pp" "yields spans_ok pc"
  shows "yields spans_ok (parsePipe_body k pp pc)"
  by (rule yieldsI)
    (auto simp: parsePipe_body_def span_simps
      dest!: newNode_result parseExpression_spans[OF assms] parsePipe_loop_spans[OF assms]
      split: adv_splits)

lemma parsePipe_parseConditional_yields:
  "yields spans_ok (parsePipe n) \<and> yields spans_ok (parseConditional n)"
proof (induction n)
  case 0
  show ?case by (simp add: yields_def)
next
  case (Suc n)
  then have pp: "yields spans_ok (\<lambda>s. parsePipe n s)"
    and pc: "yields spans_ok (\<lambda>s. parseConditional n s)"
    by simp_all
  show ?case
    using parsePipe_body_yields[OF pp pc, of n] parseConditional_body_yields[OF pp pc, of n]
    by (simp add: yields_def)
qed

lemma parseChain_body_spans:
  assumes "yields spans_ok pp"
  shows "parseChain_body pp exprs st = Some (r, st') \<Longrightarrow> spans_ok_list exprs \<Longrightarrow>
         spans_ok_list (fst r)"
  by (auto simp: parseChain_body_def span_simps dest!: newNode_result yieldsD[OF assms] split: adv_splits)

lemma parseChain_loop_spans:
  assumes "yields spans_ok pp"
  shows "parseChain_loop k pp exprs st = Some (r, st') \<Longrightarrow> spans_ok_list exprs \<Longrightarrow>
         spans_ok_list r"
proof (induction k arbitrary: exprs st)
  case 0
  then show ?case by simp
next
  case (Suc k)
  show ?case
    using Suc.prems
    by (auto simp: span_simps dest!: newNode_result Suc.IH parseChain_body_spans[OF assms] split: adv_splits)
qed

lemma parseChain_spans: "parseChain n st = Some (r, st') \<Longrightarrow> spans_ok r"
  by (auto simp: parseChain_def span_simps spans_ok_list_nth
      dest!: newNode_result parseChain_loop_spans[OF parsePipe_parseConditional_yields[THEN conjunct1]]
      split: adv_splits)

section \<open>Properties of \<open>span\<close>\<close>

lemma parsePipe_total: "rem_tokens st + 3 \<le> n \<Longrightarrow> \<exists>a st'. parsePipe n st = Some (a, st')"
  using parsePipe_returns[of st n] by (auto simp: returns_def)

lemma parseChain_total: "rem_tokens st + 3 \<le> n \<Longrightarrow> \<exists>a st'. parseChain n st = Some (a, st')"
  using parseChain_returns[of st n] by (auto simp: returns_def)

lemma parseAction_spans:
  "parseAction p inp isAssignmentEvent loc off config = Some (a, p') \<Longrightarrow> spans_ok a"
  by (auto simp: parseAction_def Let_def span_ok_def dest!: parseChain_spans split: option.splits)

lemma parseBinding_spans: "parseBinding p inp loc off config = Some (a, p') \<Longrightarrow> spans_ok a"
  by (auto simp: parseBinding_def parseBindingAst_def Let_def span_ok_def dest!: parseChain_spans
      split: option.splits)

lemma parseSimpleBinding_spans:
  "parseSimpleBinding p inp loc off config = Some (a, p') \<Longrightarrow> spans_ok a"
  by (auto simp: parseSimpleBinding_def parseBindingAst_def Let_def span_ok_def
      dest!: parseChain_spans
      split: option.splits)

text \<open>
  Claim C9.  The span \<open>_ParseAST.span\<close> returns has \<open>start \<le> end\<close>, because it is made of the
  smaller and the larger of the two indices it computes, the start it is given and the end
  index (the current end index, or the artificial end index when that is larger): when the start
  exceeds the end index the two are swapped.  Hence every node of every tree the parser builds
  has a relative span with \<open>start \<le> end\<close> (\<open>spans_ok\<close>): the trees of \<open>parsePipe\<close> and
  \<open>parseChain\<close>, from any state and with any bound, and the results of \<open>parseAction\<close>,
  \<open>parseBinding\<close> and \<open>parseSimpleBinding\<close>.
\<close>

theorem parser_spans_start_le_end:
  "span_start (span st start art) \<le> span_end (span st start art) \<and>
   span st start art =
     \<lparr>span_start =
        min start (case art of None \<Rightarrow> currentEndIndex st
                   | Some e \<Rightarrow> max e (currentEndIndex st)),
      span_end =
        max start (case art of None \<Rightarrow> currentEndIndex st
                   | Some e \<Rightarrow> max e (currentEndIndex st))\<rparr> \<and>
   (parsePipe n s1 = Some (a1, s1') \<longrightarrow> spans_ok a1) \<and>
   (parseChain n s2 = Some (a2, s2') \<longrightarrow> spans_ok a2) \<and>
   (parseAction p inp isAssignmentEvent loc off config = Some (a3, p3) \<longrightarrow> spans_ok a3) \<and>
   (parseBinding p inp loc off config = Some (a4, p4) \<longrightarrow> spans_ok a4) \<and>
   (parseSimpleBinding p inp loc off config = Some (a5, p5) \<longrightarrow> spans_ok a5)"
proof -
  have "span_start (span st start art) \<le> span_end (span st start art)"
    using span_ok_span[of st start art] by (simp add: span_ok_def)
  moreover have "span st start art =
     \<lparr>span_start =
        min start (case art of None \<Rightarrow> currentEndIndex st
                   | Some e \<Rightarrow> max e (currentEndIndex st)),
      span_end =
        max start (case art of None \<Rightarrow> currentEndIndex st
                   | Some e \<Rightarrow> max e (currentEndIndex st))\<rparr>"
    by (auto simp: span_def Let_def min_def max_def split: option.split)
  moreover have "parsePipe n s1 = Some (a1, s1') \<longrightarrow> spans_ok a1"
    using parsePipe_parseConditional_yields[of n] by (auto simp: yields_def)
  moreover have "parseChain n s2 = Some (a2, s2') \<longrightarrow> spans_ok a2"
    using parseChain_spans by blast
  moreover have "parseAction p inp isAssignmentEvent loc off config = Some (a3, p3) \<longrightarrow>
      spans_ok a3"
    using parseAction_spans by blast
  moreover have "parseBinding p inp loc off config = Some (a4, p4) \<longrightarrow> spans_ok a4"
    using parseBinding_spans by blast
  moreover have "parseSimpleBinding p inp loc off config = Some (a5, p5) \<longrightarrow> spans_ok a5"
    using parseSimpleBinding_spans by blast
  ultimately show ?thesis by blast
qed

definition ab_state :: ParseAST where
  "ab_state = new_ParseAST ''a b'' ''t.html'' 0 ab_tokens Flags_None [] 0"

theorem parser_spans_start_le_end_witness:
  "span (advance ab_state) 7 None = \<lparr>span_start = 1, span_end = 7\<rparr> \<and>
   (\<exists>a s'. parsePipe 5 ab_state = Some (a, s') \<and> spans_ok a) \<and>
   (\<exists>a s'. parseChain 5 ab_state = Some (a, s') \<and> spans_ok a) \<and>
   (\<exists>a p'. parseAction (new_Parser demo_lexer) ''a b'' False ''t.html'' 0
      DEFAULT_INTERPOLATION_CONFIG = Some (a, p') \<and> spans_ok a) \<and>
   (\<exists>a p'. parseBinding (new_Parser demo_lexer) ''a b'' ''t.html'' 0
      DEFAULT_INTERPOLATION_CONFIG = Some (a, p') \<and> spans_ok a) \<and>
   (\<exists>a p'. parseSimpleBinding (new_Parser demo_lexer) ''a b'' ''t.html'' 0
      DEFAULT_INTERPOLATION_CONFIG = Some (a, p') \<and> spans_ok a)"
proof -
  have fuel: "rem_tokens ab_state + 3 \<le> 5"
    by (simp add: rem_tokens_def ab_state_def new_ParseAST_def ab_tokens_def)
  let ?p = "new_Parser demo_lexer"
  have p: "?p\<lparr>parser_errors := []\<rparr> = ?p"
    by (simp add: new_Parser_def)
  obtain a1 s1 where 1: "parsePipe 5 ab_state = Some (a1, s1)"
    using parsePipe_total[OF fuel] by blast
  obtain a2 s2 where 2: "parseChain 5 ab_state = Some (a2, s2)"
    using parseChain_total[OF fuel] by blast
  obtain a3 p3 where 3: "parseAction ?p ''a b'' False ''t.html'' 0
      DEFAULT_INTERPOLATION_CONFIG = Some (a3, p3)"
    using parseAction_appends[of ?p "''a b''" False "''t.html''" 0 DEFAULT_INTERPOLATION_CONFIG] p
    by (metis)
  obtain a4 p4 where 4: "parseBinding ?p ''a b'' ''t.html'' 0
      DEFAULT_INTERPOLATION_CONFIG = Some (a4, p4)"
    using parseBinding_appends[of ?p "''a b''" "''t.html''" 0 DEFAULT_INTERPOLATION_CONFIG] p
    by (metis)
  obtain a5 p5 where 5: "parseSimpleBinding ?p ''a b'' ''t.html'' 0
      DEFAULT_INTERPOLATION_CONFIG = Some (a5, p5)"
    using parseSimpleBinding_appends[of ?p "''a b''" "''t.html''" 0 DEFAULT_INTERPOLATION_CONFIG]
      p
    by (metis)
  have sp: "span (advance ab_state) 7 None = \<lparr>span_start = 1, span_end = 7\<rparr>"
    by (simp add: span_def currentEndIndex_def peek_def advance_def ab_state_def
        new_ParseAST_def ab_tokens_def tk_def Let_def)
  from parser_spans_start_le_end
    [of "advance ab_state" 7 None 5 ab_state a1 s1 ab_state a2 s2 ?p "''a b''" False "''t.html''" 0
      DEFAULT_INTERPOLATION_CONFIG a3 p3 a4 p4 a5 p5]
    1 2 3 4 5 sp
  show ?thesis by simp
qed

end
